theory Spec2Isabelle
  imports Main
begin

section \<open>Data model of the upstream (OpenAI-shaped) protocol\<close>

text \<open>
  The types of \<^verbatim>\<open>create-chat-completions.ts\<close>. A TypeScript union of string literals is
  a datatype, an interface is a record, an optional field is an \<open>option\<close>. JavaScript
  strings are modelled as \<open>string\<close>; token counts (JavaScript numbers holding
  integers) as \<open>int\<close>.
\<close>

datatype role = User | Assistant | System | Tool | Developer

datatype detail = Low | High | Auto

text \<open>\<^verbatim>\<open>ContentPart = TextPart | ImagePart\<close>; an image part carries its url and the optional detail.\<close>

datatype contentPart = TextPart string | ImagePart string "detail option"

text \<open>\<^verbatim>\<open>Message["content"]: string | Array<ContentPart> | null\<close>.\<close>

datatype content = CString string | CParts "contentPart list" | CNull

record toolCall =
  tc_id :: string
  tc_name :: string
  tc_arguments :: string

record message =
  role :: role
  content :: content
  tool_calls :: "toolCall list option"
  tool_call_id :: "string option"

datatype finish_reason = Stop | Length | Tool_calls | Content_filter

record responseMessage =
  rm_content :: content
  rm_tool_calls :: "toolCall list option"

record choiceNonStreaming =
  choice_message :: responseMessage
  finish_reason :: finish_reason

record prompt_tokens_details =
  cached_tokens :: int

record usage =
  prompt_tokens :: int
  completion_tokens :: int
  total_tokens :: int
  prompt_tokens_details :: "prompt_tokens_details option"

record chatCompletionResponse =
  resp_id :: string
  resp_model :: string
  choices :: "choiceNonStreaming list"
  resp_usage :: "usage option"

section \<open>Data model of the source (Anthropic-shaped) protocol\<close>

text \<open>
  Modelled from the spec: the type declarations of \<^verbatim>\<open>./anthropic-types\<close> are not among
  the sources. The types of this section follow section 3 of the specification and the
  fields that \<^verbatim>\<open>non-stream-translation.ts\<close> reads.

  Blocks inside a \<^verbatim>\<open>tool_result\<close>: text or image (media type, base64 data).
\<close>

datatype toolResultPart = TRText string | TRImage string string

datatype toolResultContent = TRString string | TRBlocks "toolResultPart list"

text \<open>
  Content blocks of user and assistant messages. \<open>'j\<close> is the type of structured JSON
  values (the \<^verbatim>\<open>input\<close> of a \<^verbatim>\<open>tool_use\<close> block).
  \<open>ImageBlock media_type data\<close>, \<open>ToolUseBlock id name input\<close>,
  \<open>ToolResultBlock tool_use_id content\<close>.
\<close>

datatype 'j block =
    TextBlock string
  | ThinkingBlock string
  | ImageBlock string string
  | ToolUseBlock string string 'j
  | ToolResultBlock string toolResultContent

text \<open>
  The \<^verbatim>\<open>content\<close> of a source message: a string or a list of blocks.
  \<^verbatim>\<open>mapContent\<close> also tests for a value that is neither
  (\<^verbatim>\<open>!Array.isArray(content)\<close> after \<^verbatim>\<open>typeof content === "string"\<close> has
  failed); \<open>AOther\<close> stands for such a value, which the declared type excludes and a
  request body can still carry.
\<close>

datatype 'j anthropicContent = AString string | ABlocks "'j block list" | AOther

datatype anthropicRole = AUser | AAssistant

record 'j anthropicMessage =
  a_role :: anthropicRole
  a_content :: "'j anthropicContent"

record anthropicUsage =
  input_tokens :: int
  output_tokens :: int
  cache_read_input_tokens :: "int option"

record ('j, 's) anthropicResponse =
  ar_id :: string
  ar_model :: string
  ar_content :: "'j block list"
  stop_reason :: 's
  stop_sequence :: "string option"
  ar_usage :: anthropicUsage

text \<open>What the code can throw.\<close>

datatype error =
    SyntaxError
  | TokenNotFound
  | NetworkError
  | FetchFailed string
  | HTTPError
  | MalformedToolCall

section \<open>Response translation (\<^verbatim>\<open>translateToAnthropic\<close>)\<close>

fun getAnthropicTextBlocks :: "content \<Rightarrow> 'j block list" where
  "getAnthropicTextBlocks (CString s) = [TextBlock s]"
| "getAnthropicTextBlocks (CParts ps) =
     concat (map (\<lambda>p. case p of TextPart t \<Rightarrow> [TextBlock t] | ImagePart u d \<Rightarrow> []) ps)"
| "getAnthropicTextBlocks CNull = []"

text \<open>
  \<^verbatim>\<open>toolCalls.map(...)\<close> with \<^verbatim>\<open>JSON.parse\<close> in the callback: the first
  argument string that does not parse throws, and the exception leaves the function.
  \<open>parse\<close> is \<^verbatim>\<open>JSON.parse\<close>, \<open>None\<close> where it throws.
\<close>

fun mapToolCalls :: "(string \<Rightarrow> 'j option) \<Rightarrow> toolCall list \<Rightarrow> error + 'j block list" where
  "mapToolCalls parse [] = Inr []"
| "mapToolCalls parse (t # ts) =
     (case parse (tc_arguments t) of
        None \<Rightarrow> Inl SyntaxError
      | Some v \<Rightarrow>
          (case mapToolCalls parse ts of
             Inl e \<Rightarrow> Inl e
           | Inr bs \<Rightarrow> Inr (ToolUseBlock (tc_id t) (tc_name t) v # bs)))"

fun getAnthropicToolUseBlocks ::
  "(string \<Rightarrow> 'j option) \<Rightarrow> toolCall list option \<Rightarrow> error + 'j block list" where
  "getAnthropicToolUseBlocks parse None = Inr []"
| "getAnthropicToolUseBlocks parse (Some tcs) = mapToolCalls parse tcs"

text \<open>
  The \<^verbatim>\<open>for (const choice of response.choices)\<close> loop, with its three mutable
  variables passed along: \<open>allTextBlocks\<close>, \<open>allToolUseBlocks\<close> and \<open>stopReason\<close>.
\<close>

fun choicesLoop ::
  "(string \<Rightarrow> 'j option) \<Rightarrow> choiceNonStreaming list \<Rightarrow>
     'j block list \<Rightarrow> 'j block list \<Rightarrow> finish_reason option \<Rightarrow>
     error + ('j block list \<times> 'j block list \<times> finish_reason option)" where
  "choicesLoop parse [] allTextBlocks allToolUseBlocks stopReason =
     Inr (allTextBlocks, allToolUseBlocks, stopReason)"
| "choicesLoop parse (c # cs) allTextBlocks allToolUseBlocks stopReason =
     (let textBlocks = getAnthropicTextBlocks (rm_content (choice_message c)) in
      case getAnthropicToolUseBlocks parse (rm_tool_calls (choice_message c)) of
        Inl e \<Rightarrow> Inl e
      | Inr toolUseBlocks \<Rightarrow>
          choicesLoop parse cs
            (allTextBlocks @ textBlocks)
            (allToolUseBlocks @ toolUseBlocks)
            (if finish_reason c = Tool_calls \<or> stopReason = Some Stop
             then Some (finish_reason c) else stopReason))"

text \<open>
  \<^verbatim>\<open>response.choices[0]?.finish_reason ?? stopReason\<close> with \<open>stopReason = null\<close>.
\<close>

definition initialStopReason :: "choiceNonStreaming list \<Rightarrow> finish_reason option" where
  "initialStopReason cs = (case cs of [] \<Rightarrow> None | c # _ \<Rightarrow> Some (finish_reason c))"

text \<open>
  The usage block of the result: \<^verbatim>\<open>response.usage?.prompt_tokens ?? 0\<close> and so on;
  the spread adds \<^verbatim>\<open>cache_read_input_tokens\<close> only when
  \<^verbatim>\<open>response.usage?.prompt_tokens_details?.cached_tokens !== undefined\<close>.
\<close>

definition cachedTokensOf :: "usage option \<Rightarrow> int option" where
  "cachedTokensOf u =
     (case u of
        None \<Rightarrow> None
      | Some us \<Rightarrow>
          (case prompt_tokens_details us of
             None \<Rightarrow> None
           | Some d \<Rightarrow> Some (cached_tokens d)))"

definition translateUsage :: "usage option \<Rightarrow> anthropicUsage" where
  "translateUsage u =
     \<lparr> input_tokens =
         (case u of None \<Rightarrow> 0 | Some us \<Rightarrow> prompt_tokens us)
         - (case cachedTokensOf u of None \<Rightarrow> 0 | Some c \<Rightarrow> c),
       output_tokens = (case u of None \<Rightarrow> 0 | Some us \<Rightarrow> completion_tokens us),
       cache_read_input_tokens = cachedTokensOf u \<rparr>"

text \<open>
  \<open>mapStop\<close> is \<^verbatim>\<open>mapOpenAIStopReasonToAnthropic\<close> (of \<^verbatim>\<open>./utils\<close>), a parameter.
\<close>

definition translateToAnthropic ::
  "(finish_reason option \<Rightarrow> 's) \<Rightarrow> (string \<Rightarrow> 'j option) \<Rightarrow> chatCompletionResponse \<Rightarrow>
     error + ('j, 's) anthropicResponse" where
  "translateToAnthropic mapStop parse response =
     (case choicesLoop parse (choices response) [] [] (initialStopReason (choices response)) of
        Inl e \<Rightarrow> Inl e
      | Inr (allTextBlocks, allToolUseBlocks, stopReason) \<Rightarrow>
          Inr \<lparr> ar_id = resp_id response,
                ar_model = resp_model response,
                ar_content = allTextBlocks @ allToolUseBlocks,
                stop_reason = mapStop stopReason,
                stop_sequence = None,
                ar_usage = translateUsage (resp_usage response) \<rparr>)"

text \<open>
  The stop reason as the specification (section 4.4) and the comment in the loop word it:
  the first choice's finish reason, unless any choice reports \<^verbatim>\<open>tool_calls\<close>.
\<close>

definition spec_stopReason :: "finish_reason list \<Rightarrow> finish_reason option" where
  "spec_stopReason frs =
     (case frs of
        [] \<Rightarrow> None
      | f # _ \<Rightarrow> Some (if Tool_calls \<in> set frs then Tool_calls else f))"

text \<open>The first finish reason other than \<^verbatim>\<open>stop\<close>, and \<^verbatim>\<open>stop\<close> when there is none.\<close>

definition firstNonStop :: "finish_reason list \<Rightarrow> finish_reason" where
  "firstNonStop frs = (case filter (\<lambda>f. f \<noteq> Stop) frs of [] \<Rightarrow> Stop | f # _ \<Rightarrow> f)"

text \<open>Every tool call of the choice has an argument string that \<open>parse\<close> accepts.\<close>

definition argumentsParse :: "(string \<Rightarrow> 'j option) \<Rightarrow> choiceNonStreaming \<Rightarrow> bool" where
  "argumentsParse parse c =
     (case rm_tool_calls (choice_message c) of
        None \<Rightarrow> True
      | Some tcs \<Rightarrow> list_all (\<lambda>t. parse (tc_arguments t) \<noteq> None) tcs)"

text \<open>Example responses.\<close>

definition textChoice :: "string \<Rightarrow> finish_reason \<Rightarrow> choiceNonStreaming" where
  "textChoice s f =
     \<lparr> choice_message = \<lparr> rm_content = CString s, rm_tool_calls = None \<rparr>, finish_reason = f \<rparr>"

definition exampleResponse :: "finish_reason list \<Rightarrow> usage option \<Rightarrow> chatCompletionResponse" where
  "exampleResponse frs u =
     \<lparr> resp_id = ''chatcmpl-1'', resp_model = ''gpt-4.1'',
       choices = map (textChoice ''ok'') frs, resp_usage = u \<rparr>"

section \<open>Request translation: messages\<close>

text \<open>\<^verbatim>\<open>Array.prototype.join\<close> on an array of strings.\<close>

fun join :: "string \<Rightarrow> string list \<Rightarrow> string" where
  "join sep [] = []"
| "join sep [x] = x"
| "join sep (x # y # ys) = x @ sep @ join sep (y # ys)"

text \<open>The separator \<^verbatim>\<open>"\n\n"\<close>: two line feeds.\<close>

definition blankLine :: string where
  "blankLine = [CHR 0x0A, CHR 0x0A]"

fun isImage :: "'j block \<Rightarrow> bool" where
  "isImage (ImageBlock m d) = True"
| "isImage _ = False"

fun isText :: "'j block \<Rightarrow> bool" where
  "isText (TextBlock t) = True"
| "isText _ = False"

fun isThinking :: "'j block \<Rightarrow> bool" where
  "isThinking (ThinkingBlock t) = True"
| "isThinking _ = False"

fun isToolUse :: "'j block \<Rightarrow> bool" where
  "isToolUse (ToolUseBlock i n v) = True"
| "isToolUse _ = False"

fun isToolResult :: "'j block \<Rightarrow> bool" where
  "isToolResult (ToolResultBlock i c) = True"
| "isToolResult _ = False"

text \<open>
  \<^verbatim>\<open>block.type === "text" ? block.text : block.thinking\<close>; a block with neither field
  would give \<^verbatim>\<open>undefined\<close>, which \<^verbatim>\<open>join\<close> prints as the empty string.
\<close>

fun blockText :: "'j block \<Rightarrow> string" where
  "blockText (TextBlock t) = t"
| "blockText (ThinkingBlock t) = t"
| "blockText _ = []"

definition dataUri :: "string \<Rightarrow> string \<Rightarrow> string" where
  "dataUri media_type d = ''data:'' @ media_type @ '';base64,'' @ d"

fun isTRImage :: "toolResultPart \<Rightarrow> bool" where
  "isTRImage (TRImage m d) = True"
| "isTRImage (TRText t) = False"

fun toContentPart :: "toolResultPart \<Rightarrow> contentPart" where
  "toContentPart (TRText t) = TextPart t"
| "toContentPart (TRImage m d) = ImagePart (dataUri m d) None"

fun mapToolResultContent :: "toolResultContent \<Rightarrow> content" where
  "mapToolResultContent (TRString s) = CString s"
| "mapToolResultContent (TRBlocks bs) =
     (if \<not> list_ex isTRImage bs
      then CString (join blankLine
             (concat (map (\<lambda>b. case b of TRText t \<Rightarrow> [t] | TRImage m d \<Rightarrow> []) bs)))
      else CParts (map toContentPart bs))"

text \<open>The \<^verbatim>\<open>switch (block.type)\<close> of \<^verbatim>\<open>mapContent\<close>: no default, other blocks push nothing.\<close>

fun contentParts :: "'j block \<Rightarrow> contentPart list" where
  "contentParts (TextBlock t) = [TextPart t]"
| "contentParts (ThinkingBlock t) = [TextPart t]"
| "contentParts (ImageBlock m d) = [ImagePart (dataUri m d) None]"
| "contentParts _ = []"

fun mapContent :: "'j anthropicContent \<Rightarrow> content" where
  "mapContent (AString s) = CString s"
| "mapContent AOther = CNull"
| "mapContent (ABlocks bs) =
     (if \<not> list_ex isImage bs
      then CString (join blankLine
             (map blockText (filter (\<lambda>b. isText b \<or> isThinking b) bs)))
      else CParts (concat (map contentParts bs)))"

fun toolResultMessage :: "'j block \<Rightarrow> message list" where
  "toolResultMessage (ToolResultBlock i c) =
     [\<lparr> role = Tool, content = mapToolResultContent c,
        tool_calls = None, tool_call_id = Some i \<rparr>]"
| "toolResultMessage _ = []"

definition handleUserMessage :: "'j anthropicMessage \<Rightarrow> message list" where
  "handleUserMessage m =
     (case a_content m of
        ABlocks bs \<Rightarrow>
          (let toolResultBlocks = filter isToolResult bs;
               otherBlocks = filter (\<lambda>b. \<not> isToolResult b) bs
           in concat (map toolResultMessage toolResultBlocks)
              @ (if length otherBlocks > 0
                 then [\<lparr> role = User, content = mapContent (ABlocks otherBlocks),
                         tool_calls = None, tool_call_id = None \<rparr>]
                 else []))
      | _ \<Rightarrow>
          [\<lparr> role = User, content = mapContent (a_content m),
             tool_calls = None, tool_call_id = None \<rparr>])"

fun toolUseCall :: "('j \<Rightarrow> string) \<Rightarrow> 'j block \<Rightarrow> toolCall list" where
  "toolUseCall stringify (ToolUseBlock i n v) =
     [\<lparr> tc_id = i, tc_name = n, tc_arguments = stringify v \<rparr>]"
| "toolUseCall stringify _ = []"

text \<open>
  \<open>allTextContent\<close>: the texts of the text blocks, then those of the thinking blocks,
  joined by \<^verbatim>\<open>"\n\n"\<close>.
\<close>

definition allTextContent :: "'j block list \<Rightarrow> string" where
  "allTextContent bs =
     join blankLine (map blockText (filter isText bs) @ map blockText (filter isThinking bs))"

definition handleAssistantMessage ::
  "('j \<Rightarrow> string) \<Rightarrow> 'j anthropicMessage \<Rightarrow> message list" where
  "handleAssistantMessage stringify m =
     (case a_content m of
        ABlocks bs \<Rightarrow>
          (let toolUseBlocks = filter isToolUse bs
           in if length toolUseBlocks > 0
              then [\<lparr> role = Assistant,
                      content = (if allTextContent bs = [] then CNull
                                 else CString (allTextContent bs)),
                      tool_calls = Some (concat (map (toolUseCall stringify) toolUseBlocks)),
                      tool_call_id = None \<rparr>]
              else [\<lparr> role = Assistant, content = mapContent (ABlocks bs),
                      tool_calls = None, tool_call_id = None \<rparr>])
      | _ \<Rightarrow>
          [\<lparr> role = Assistant, content = mapContent (a_content m),
             tool_calls = None, tool_call_id = None \<rparr>])"

text \<open>The \<^verbatim>\<open>tool_use_id\<close> field of a \<^verbatim>\<open>tool_result\<close> block.\<close>

fun tool_use_id :: "'j block \<Rightarrow> string option" where
  "tool_use_id (ToolResultBlock i c) = Some i"
| "tool_use_id _ = None"

text \<open>The object literal \<^verbatim>\<open>{ role: "user", content }\<close>.\<close>

definition userMessage :: "content \<Rightarrow> message" where
  "userMessage c = \<lparr> role = User, content = c, tool_calls = None, tool_call_id = None \<rparr>"

text \<open>
  The string the specification describes (section 4.2): the texts of the text and thinking
  blocks, in the blocks' original order, joined by a blank line.
\<close>

definition collapsedText :: "'j block list \<Rightarrow> string" where
  "collapsedText bs = join blankLine (map blockText (filter (\<lambda>b. isText b \<or> isThinking b) bs))"

section \<open>Model-name normalizer (\<^verbatim>\<open>translateModelName\<close>)\<close>

text \<open>
  The three regular expressions of \<^verbatim>\<open>translateModelName\<close> are written out as
  matchers on character lists. \<^verbatim>\<open>\d\<close> (no unicode flag) is an ASCII digit;
  \<^verbatim>\<open>.\<close> is any character but a line terminator. Characters are the 8-bit
  \<open>char\<close>, where the line terminators are line feed and carriage return (U+2028 and
  U+2029 lie outside this alphabet).
\<close>

definition isDigit :: "char \<Rightarrow> bool" where
  "isDigit c = (c \<in> set ''0123456789'')"

definition isLineTerminator :: "char \<Rightarrow> bool" where
  "isLineTerminator c = (c = CHR 0x0A \<or> c = CHR 0x0D)"

definition dotChar :: "char \<Rightarrow> bool" where
  "dotChar c = (\<not> isLineTerminator c)"

text \<open>
  \<^verbatim>\<open>/\[.*\]$/\<close> tried at the start of \<open>s\<close>: an opening bracket, then
  \<^verbatim>\<open>.*\<close>, then a closing bracket that is the last character of the input.
\<close>

fun bracketSuffixPattern :: "string \<Rightarrow> bool" where
  "bracketSuffixPattern [] = False"
| "bracketSuffixPattern (c # cs) =
     (c = CHR ''['' \<and> cs \<noteq> [] \<and> last cs = CHR '']'' \<and> list_all dotChar (butlast cs))"

text \<open>\<^verbatim>\<open>/-\d{8}$/\<close> tried at the start of \<open>s\<close>: a hyphen and exactly eight digits, then the end.\<close>

fun dateSuffixPattern :: "string \<Rightarrow> bool" where
  "dateSuffixPattern [] = False"
| "dateSuffixPattern (c # cs) = (c = CHR ''-'' \<and> length cs = 8 \<and> list_all isDigit cs)"

text \<open>
  The regular expression engine tries the start positions from left to right; the index of
  the first position where the pattern matches. Both suffix patterns end in
  \<^verbatim>\<open>$\<close>, so a match at index \<open>i\<close> runs to the end of the input.
\<close>

fun firstMatch :: "(string \<Rightarrow> bool) \<Rightarrow> string \<Rightarrow> nat option" where
  "firstMatch p [] = (if p [] then Some 0 else None)"
| "firstMatch p (c # cs) =
     (if p (c # cs) then Some 0 else map_option Suc (firstMatch p cs))"

text \<open>
  \<^verbatim>\<open>if (pattern.test(result)) { result = result.replace(pattern, "") }\<close>: the first
  match, which runs to the end, is replaced by the empty string.
\<close>

definition stripSuffix :: "(string \<Rightarrow> bool) \<Rightarrow> string \<Rightarrow> string" where
  "stripSuffix p s = (case firstMatch p s of None \<Rightarrow> s | Some i \<Rightarrow> take i s)"

text \<open>
  \<^verbatim>\<open>-\d+)-(\d+)$\<close>, the part of \<^verbatim>\<open>/^(.*-\d+)-(\d+)$/\<close> behind
  \<^verbatim>\<open>.*\<close>, tried at the start of \<open>r\<close>. The greedy \<^verbatim>\<open>\d+\<close> takes the whole
  run of digits; giving digits back cannot help, since a hyphen has to follow. The result
  is the two digit runs.
\<close>

fun minorVersionTail :: "string \<Rightarrow> (string \<times> string) option" where
  "minorVersionTail [] = None"
| "minorVersionTail (c # r1) =
     (if c = CHR ''-'' then
        (case dropWhile isDigit r1 of
           [] \<Rightarrow> None
         | h # d2 \<Rightarrow>
             if h = CHR ''-'' \<and> takeWhile isDigit r1 \<noteq> [] \<and> d2 \<noteq> [] \<and> list_all isDigit d2
             then Some (takeWhile isDigit r1, d2) else None)
      else None)"

text \<open>
  The greedy \<^verbatim>\<open>.*\<close> of \<^verbatim>\<open>/^(.*-\d+)-(\d+)$/\<close>: it first takes \<open>k\<close>
  characters and gives them back one at a time until the rest of the pattern matches.
  The result is the pair of capture groups.
\<close>

fun dotStarBacktrack :: "nat \<Rightarrow> string \<Rightarrow> (string \<times> string) option" where
  "dotStarBacktrack 0 s =
     (case minorVersionTail s of
        Some (d1, d2) \<Rightarrow> Some (CHR ''-'' # d1, d2)
      | None \<Rightarrow> None)"
| "dotStarBacktrack (Suc k) s =
     (case minorVersionTail (drop (Suc k) s) of
        Some (d1, d2) \<Rightarrow> Some (take (Suc k) s @ CHR ''-'' # d1, d2)
      | None \<Rightarrow> dotStarBacktrack k s)"

text \<open>
  \<^verbatim>\<open>hyphenMinorVersionPattern.exec(result)\<close>: \<^verbatim>\<open>.*\<close> starts with the longest
  run of characters that are not line terminators.
\<close>

definition hyphenMinorVersionPattern :: "string \<Rightarrow> (string \<times> string) option" where
  "hyphenMinorVersionPattern s = dotStarBacktrack (length (takeWhile dotChar s)) s"

text \<open>The third step: \<^verbatim>\<open>if (match) { result = `${match[1]}.${match[2]}` }\<close>.\<close>

definition convertMinorVersion :: "string \<Rightarrow> string" where
  "convertMinorVersion s =
     (case hyphenMinorVersionPattern s of
        Some (m1, m2) \<Rightarrow> m1 @ ''.'' @ m2
      | None \<Rightarrow> s)"

text \<open>The value of \<open>result\<close> after the first two steps.\<close>

definition strippedModelName :: "string \<Rightarrow> string" where
  "strippedModelName model =
     stripSuffix dateSuffixPattern (stripSuffix bracketSuffixPattern model)"

definition translateModelName :: "string \<Rightarrow> string" where
  "translateModelName model = convertMinorVersion (strippedModelName model)"

text \<open>
  The shape the third step looks for: \<open>x-d1-d2\<close> with \<open>d1\<close> and \<open>d2\<close> non-empty
  runs of digits and no line terminator in \<open>x\<close>.
\<close>

definition minorVersionForm :: "string \<Rightarrow> string \<Rightarrow> string \<Rightarrow> string \<Rightarrow> bool" where
  "minorVersionForm s x d1 d2 =
     (s = x @ ''-'' @ d1 @ ''-'' @ d2 \<and> list_all dotChar x
      \<and> d1 \<noteq> [] \<and> list_all isDigit d1 \<and> d2 \<noteq> [] \<and> list_all isDigit d2)"

text \<open>
  The condition of the third rule as the specification words it (section 4.1): the string
  ends in \<^verbatim>\<open>-<digits>-<digits>\<close> and an earlier \<^verbatim>\<open>-<digits>\<close> segment stands
  before that pair. \<open>hasHyphenDigit\<close> looks for a hyphen followed by a digit;
  \<open>spec_minorVersionRule\<close> reads the two digit runs off the end of the string.
\<close>

fun hasHyphenDigit :: "string \<Rightarrow> bool" where
  "hasHyphenDigit (c # d # cs) = ((c = CHR ''-'' \<and> isDigit d) \<or> hasHyphenDigit (d # cs))"
| "hasHyphenDigit _ = False"

definition spec_minorVersionRule :: "string \<Rightarrow> bool" where
  "spec_minorVersionRule s =
     (let d2 = takeWhile isDigit (rev s); r1 = dropWhile isDigit (rev s) in
      case r1 of
        [] \<Rightarrow> False
      | h1 # r2 \<Rightarrow>
          (let d1 = takeWhile isDigit r2; r3 = dropWhile isDigit r2 in
           case r3 of
             [] \<Rightarrow> False
           | h2 # p \<Rightarrow>
               h1 = CHR ''-'' \<and> h2 = CHR ''-'' \<and> d1 \<noteq> [] \<and> d2 \<noteq> []
               \<and> hasHyphenDigit (rev p)))"

section \<open>The upstream call (\<^verbatim>\<open>create-chat-completions.ts\<close>)\<close>

text \<open>
  \<^verbatim>\<open>ChatCompletionsPayload\<close>: the fields the code reads. Every other field of the
  payload travels in the record's extension, which the updates below leave alone, like the
  spread \<^verbatim>\<open>{ ...payload, messages }\<close>.
\<close>

record chatCompletionsPayload =
  messages :: "message list"
  payload_model :: string
  stream :: "bool option"

text \<open>
  What \<^verbatim>\<open>fetch(url)\<close> gives for an image: the \<^verbatim>\<open>ok\<close> flag, the
  \<^verbatim>\<open>content-type\<close> header and the body. The network is a parameter
  \<open>fetch :: string \<Rightarrow> imageResponse option\<close>, \<open>None\<close> where the fetch (or the read
  of the body) is rejected.
\<close>

record imageResponse =
  ok :: bool
  content_type :: "string option"
  body :: string

text \<open>\<^verbatim>\<open>String.prototype.startsWith\<close>.\<close>

definition startsWith :: "string \<Rightarrow> string \<Rightarrow> bool" where
  "startsWith s p = (take (length p) s = p)"

text \<open>
  \<open>toBase64\<close> is \<^verbatim>\<open>Buffer.from(buffer).toString("base64")\<close>, a parameter.
\<close>

definition fetchImageAsBase64 ::
  "(string \<Rightarrow> imageResponse option) \<Rightarrow> (string \<Rightarrow> string) \<Rightarrow> string \<Rightarrow> error + string" where
  "fetchImageAsBase64 fetch toBase64 url =
     (case fetch url of
        None \<Rightarrow> Inl NetworkError
      | Some response \<Rightarrow>
          if \<not> ok response then Inl (FetchFailed url)
          else
            (let contentType = (case content_type response of None \<Rightarrow> ''image/jpeg'' | Some t \<Rightarrow> t);
                 base64 = toBase64 (body response)
             in Inr (''data:'' @ contentType @ '';base64,'' @ base64)))"

text \<open>
  \<^verbatim>\<open>part.type === "image_url" && !part.image_url.url.startsWith("data:")\<close>.
\<close>

fun isExternalImage :: "contentPart \<Rightarrow> bool" where
  "isExternalImage (TextPart t) = False"
| "isExternalImage (ImagePart url d) = (\<not> startsWith url ''data:'')"

text \<open>\<^verbatim>\<open>Array.isArray(msg.content) && msg.content.some(...)\<close>.\<close>

fun hasExternalPart :: "message \<Rightarrow> bool" where
  "hasExternalPart msg =
     (case content msg of CParts ps \<Rightarrow> list_ex isExternalImage ps | _ \<Rightarrow> False)"

text \<open>
  \<^verbatim>\<open>Promise.all\<close>: the list of results when every promise is fulfilled, and the
  first rejection otherwise.
\<close>

fun promiseAll :: "(error + 'a) list \<Rightarrow> error + 'a list" where
  "promiseAll [] = Inr []"
| "promiseAll (Inl e # ps) = Inl e"
| "promiseAll (Inr x # ps) = (case promiseAll ps of Inl e \<Rightarrow> Inl e | Inr xs \<Rightarrow> Inr (x # xs))"

text \<open>
  The inner \<^verbatim>\<open>async (part) => ...\<close>: a part that is not an external image is
  returned as it is; for an external image the \<^verbatim>\<open>try\<close> block returns the part
  with the data URI, and the \<^verbatim>\<open>catch\<close> block (after the warning is logged) the part
  as it was.
\<close>

fun resolvePart ::
  "(string \<Rightarrow> imageResponse option) \<Rightarrow> (string \<Rightarrow> string) \<Rightarrow> contentPart \<Rightarrow> error + contentPart" where
  "resolvePart fetch toBase64 (TextPart t) = Inr (TextPart t)"
| "resolvePart fetch toBase64 (ImagePart url d) =
     (if startsWith url ''data:'' then Inr (ImagePart url d)
      else
        (case fetchImageAsBase64 fetch toBase64 url of
           Inr base64Url \<Rightarrow> Inr (ImagePart base64Url d)
         | Inl err \<Rightarrow> Inr (ImagePart url d)))"

text \<open>The outer \<^verbatim>\<open>async (msg) => ...\<close>.\<close>

definition resolveMessage ::
  "(string \<Rightarrow> imageResponse option) \<Rightarrow> (string \<Rightarrow> string) \<Rightarrow> message \<Rightarrow> error + message" where
  "resolveMessage fetch toBase64 msg =
     (case content msg of
        CParts ps \<Rightarrow>
          (case promiseAll (map (resolvePart fetch toBase64) ps) of
             Inl e \<Rightarrow> Inl e
           | Inr resolvedContent \<Rightarrow> Inr (msg\<lparr> content := CParts resolvedContent \<rparr>))
      | _ \<Rightarrow> Inr msg)"

definition resolveExternalImages ::
  "(string \<Rightarrow> imageResponse option) \<Rightarrow> (string \<Rightarrow> string) \<Rightarrow>
     'a chatCompletionsPayload_scheme \<Rightarrow> error + 'a chatCompletionsPayload_scheme" where
  "resolveExternalImages fetch toBase64 payload =
     (if \<not> list_ex hasExternalPart (messages payload) then Inr payload
      else
        (case promiseAll (map (resolveMessage fetch toBase64) (messages payload)) of
           Inl e \<Rightarrow> Inl e
         | Inr resolvedMessages \<Rightarrow> Inr (payload\<lparr> messages := resolvedMessages \<rparr>)))"

text \<open>
  The application state: only the token is read here (\<^verbatim>\<open>!state.copilotToken\<close> holds
  for an absent token and for the empty string). \<open>copilotHeaders\<close> and
  \<open>copilotBaseUrl\<close> (of \<^verbatim>\<open>~/lib/api-config\<close>) are parameters.
\<close>

record appState =
  copilotToken :: "string option"

record 'a upstreamRequest =
  req_url :: string
  req_method :: string
  req_headers :: "string \<rightharpoonup> string"
  req_body :: "'a chatCompletionsPayload_scheme"

text \<open>
  \<^verbatim>\<open>typeof x.content !== "string" && x.content?.some((x) => x.type === "image_url")\<close>.
\<close>

fun isImagePart :: "contentPart \<Rightarrow> bool" where
  "isImagePart (ImagePart url d) = True"
| "isImagePart (TextPart t) = False"

fun hasImagePart :: "message \<Rightarrow> bool" where
  "hasImagePart msg = (case content msg of CParts ps \<Rightarrow> list_ex isImagePart ps | _ \<Rightarrow> False)"

text \<open>\<^verbatim>\<open>["assistant", "tool"].includes(msg.role)\<close>.\<close>

definition isAgentRole :: "role \<Rightarrow> bool" where
  "isAgentRole r = (r \<in> set [Assistant, Tool])"

text \<open>
  \<^verbatim>\<open>createChatCompletions\<close> up to its call of \<^verbatim>\<open>fetch\<close>: the request it
  sends (the body before \<^verbatim>\<open>JSON.stringify\<close>), or the error thrown before.
\<close>

definition chatCompletionsRequest ::
  "('s appState_scheme \<Rightarrow> bool \<Rightarrow> (string \<rightharpoonup> string)) \<Rightarrow> ('s appState_scheme \<Rightarrow> string) \<Rightarrow>
     (string \<Rightarrow> imageResponse option) \<Rightarrow> (string \<Rightarrow> string) \<Rightarrow>
     's appState_scheme \<Rightarrow> 'a chatCompletionsPayload_scheme \<Rightarrow> error + 'a upstreamRequest" where
  "chatCompletionsRequest copilotHeaders copilotBaseUrl fetch toBase64 state payload =
     (if copilotToken state = None \<or> copilotToken state = Some [] then Inl TokenNotFound
      else
        (case resolveExternalImages fetch toBase64 payload of
           Inl e \<Rightarrow> Inl e
         | Inr resolvedPayload \<Rightarrow>
             (let enableVision = list_ex hasImagePart (messages resolvedPayload);
                  isAgentCall = list_ex (\<lambda>msg. isAgentRole (role msg)) (messages resolvedPayload);
                  headers = (copilotHeaders state enableVision)
                              (''X-Initiator'' \<mapsto> (if isAgentCall then ''agent'' else ''user''))
              in Inr \<lparr> req_url = copilotBaseUrl state @ ''/chat/completions'',
                       req_method = ''POST'',
                       req_headers = headers,
                       req_body = resolvedPayload \<rparr>)))"

text \<open>
  The rest of \<^verbatim>\<open>createChatCompletions\<close>: \<open>send\<close> is the upstream
  \<^verbatim>\<open>fetch\<close> (\<open>None\<close> where it is rejected); a response that is not \<^verbatim>\<open>ok\<close>
  throws \<^verbatim>\<open>HTTPError\<close>; otherwise the event stream or the parsed body is returned.
\<close>

datatype 'r completion = EventStream 'r | JsonBody 'r

definition createChatCompletions ::
  "('s appState_scheme \<Rightarrow> bool \<Rightarrow> (string \<rightharpoonup> string)) \<Rightarrow> ('s appState_scheme \<Rightarrow> string) \<Rightarrow>
     (string \<Rightarrow> imageResponse option) \<Rightarrow> (string \<Rightarrow> string) \<Rightarrow>
     ('a upstreamRequest \<Rightarrow> (bool \<times> 'r) option) \<Rightarrow>
     's appState_scheme \<Rightarrow> 'a chatCompletionsPayload_scheme \<Rightarrow> error + 'r completion" where
  "createChatCompletions copilotHeaders copilotBaseUrl fetch toBase64 send state payload =
     (case chatCompletionsRequest copilotHeaders copilotBaseUrl fetch toBase64 state payload of
        Inl e \<Rightarrow> Inl e
      | Inr request \<Rightarrow>
          (case send request of
             None \<Rightarrow> Inl NetworkError
           | Some (response_ok, response) \<Rightarrow>
               if \<not> response_ok then Inl HTTPError
               else if stream (req_body request) = Some True then Inr (EventStream response)
               else Inr (JsonBody response)))"

text \<open>Example payloads.\<close>

definition examplePayload :: "message list \<Rightarrow> chatCompletionsPayload" where
  "examplePayload ms = \<lparr> messages = ms, payload_model = ''gpt-4.1'', stream = None \<rparr>"

definition exampleMessage :: "role \<Rightarrow> content \<Rightarrow> message" where
  "exampleMessage r c = \<lparr> role = r, content = c, tool_calls = None, tool_call_id = None \<rparr>"

definition exampleHeaders :: "appState \<Rightarrow> bool \<Rightarrow> (string \<rightharpoonup> string)" where
  "exampleHeaders state vision = [''content-type'' \<mapsto> ''application/json'', ''X-Initiator'' \<mapsto> ''stale'']"

definition exampleBaseUrl :: "appState \<Rightarrow> string" where
  "exampleBaseUrl state = ''https://api.githubcopilot.com''"

section \<open>Streaming (\<^verbatim>\<open>handleCompletion\<close> of \<^verbatim>\<open>routes/messages/handler.ts\<close>)\<close>

text \<open>
  The streaming types of \<^verbatim>\<open>create-chat-completions.ts\<close>: \<^verbatim>\<open>ChatCompletionChunk\<close>,
  its \<^verbatim>\<open>Choice\<close> and \<^verbatim>\<open>Delta\<close>. The optional \<^verbatim>\<open>function\<close> object of a
  tool-call delta is flattened into its two optional fields; a \<^verbatim>\<open>content\<close> that is
  absent or null is \<open>None\<close>.
\<close>

record toolCallDelta =
  tcd_index :: nat
  tcd_id :: "string option"
  tcd_name :: "string option"
  tcd_arguments :: "string option"

record delta =
  delta_content :: "string option"
  delta_role :: "role option"
  delta_tool_calls :: "toolCallDelta list option"

record choice =
  choice_delta :: delta
  choice_finish_reason :: "finish_reason option"

record chatCompletionChunk =
  chunk_choices :: "choice list"
  chunk_usage :: "usage option"

text \<open>
  Modelled from the spec: the event types of \<^verbatim>\<open>./anthropic-types\<close> are not among the
  sources. The events of the source protocol are those of section 3 of the specification,
  the terminal reasons those of section 4.3, step 4.
\<close>

datatype anthropicStopReason = End_turn | Max_tokens | Tool_use | Stop_sequence

datatype blockStart = TextStart | ToolUseStart string string

datatype blockDelta = TextDelta string | InputJsonDelta string

datatype anthropicEvent =
    Ping
  | MessageStart
  | ContentBlockStart nat blockStart
  | ContentBlockDelta nat blockDelta
  | ContentBlockStop nat
  | MessageDelta "anthropicStopReason option" "usage option"
  | MessageStop
  | ErrorEvent

text \<open>
  \<^verbatim>\<open>AnthropicStreamState\<close>, with the four fields of the object literal in
  \<^verbatim>\<open>handleCompletion\<close>. \<open>toolCalls\<close> maps an upstream tool-call index to what was
  recorded for it; it is an association list, read with \<open>map_of\<close>. What is recorded
  for a tool call follows section 3 of the specification (the type is declared in
  \<^verbatim>\<open>./anthropic-types\<close>, which is not among the sources), with the index of its block.
\<close>

record toolCallInfo =
  tci_id :: string
  tci_name :: string
  tci_blockIndex :: nat
  tci_arguments :: string

record anthropicStreamState =
  messageStartSent :: bool
  contentBlockIndex :: nat
  contentBlockOpen :: bool
  toolCalls :: "(nat \<times> toolCallInfo) list"

subsection \<open>The chunk translator, modelled from the specification\<close>

text \<open>
  Modelled from the spec: \<^verbatim>\<open>translateChunkToAnthropicEvents\<close> of
  \<^verbatim>\<open>./stream-translation\<close> is not among the sources; the definitions of this subsection
  follow section 4.3 of the specification, steps 1 to 4, applied to the first choice of the
  chunk. \<open>contentBlockIndex\<close> is the index of the open block while one is open and the
  next index to allocate otherwise: closing a block emits its stop event at
  \<open>contentBlockIndex\<close> and then increments it. Step 5 and the last sentence of step 4
  concern the caller, which is \<^verbatim>\<open>handleCompletion\<close> below.
\<close>

text \<open>
  Modelled from the spec: the terminal-reason mapping of step 4
  (\<^verbatim>\<open>mapOpenAIStopReasonToAnthropic\<close> of \<^verbatim>\<open>./utils\<close> is not among the sources).
\<close>

definition mapStopReason :: "finish_reason \<Rightarrow> anthropicStopReason option" where
  "mapStopReason f =
     (case f of
        Stop \<Rightarrow> Some End_turn
      | Length \<Rightarrow> Some Max_tokens
      | Tool_calls \<Rightarrow> Some Tool_use
      | Content_filter \<Rightarrow> Some Stop_sequence)"

text \<open>
  Modelled from the spec: "close any open block", of steps 2, 3 and 4 of the missing
  translator.
\<close>

definition closeOpenBlock :: "anthropicStreamState \<Rightarrow> anthropicEvent list \<times> anthropicStreamState" where
  "closeOpenBlock st =
     (if contentBlockOpen st
      then ([ContentBlockStop (contentBlockIndex st)],
            st\<lparr> contentBlockIndex := contentBlockIndex st + 1, contentBlockOpen := False \<rparr>)
      else ([], st))"

text \<open>
  Modelled from the spec: "the open block is a tool-use block", of step 2 of the missing
  translator.
\<close>

definition isToolBlockOpen :: "anthropicStreamState \<Rightarrow> bool" where
  "isToolBlockOpen st =
     (contentBlockOpen st
      \<and> list_ex (\<lambda>entry. tci_blockIndex (snd entry) = contentBlockIndex st) (toolCalls st))"

text \<open>Modelled from the spec: step 1 of the missing translator.\<close>

definition messageStartStep :: "anthropicStreamState \<Rightarrow> anthropicEvent list \<times> anthropicStreamState" where
  "messageStartStep st =
     (if \<not> messageStartSent st then ([MessageStart], st\<lparr> messageStartSent := True \<rparr>)
      else ([], st))"

text \<open>Modelled from the spec: step 2 of the missing translator.\<close>

definition contentStep ::
  "string option \<Rightarrow> anthropicStreamState \<Rightarrow> anthropicEvent list \<times> anthropicStreamState" where
  "contentStep c st =
     (case c of
        None \<Rightarrow> ([], st)
      | Some text \<Rightarrow>
          if text = [] then ([], st)
          else
            (let (opened, st1) =
                   (if \<not> contentBlockOpen st \<or> isToolBlockOpen st
                    then (let (closed, s) = closeOpenBlock st
                          in (closed @ [ContentBlockStart (contentBlockIndex s) TextStart],
                              s\<lparr> contentBlockOpen := True \<rparr>))
                    else ([], st))
             in (opened @ [ContentBlockDelta (contentBlockIndex st1) (TextDelta text)], st1)))"

text \<open>
  Modelled from the spec: step 3 of the missing translator for one entry of
  \<^verbatim>\<open>delta.tool_calls\<close>, second half (the arguments fragment is appended to what is
  recorded and emitted as a delta of the call's block).
\<close>

definition argumentsStep ::
  "toolCallDelta \<Rightarrow> anthropicStreamState \<Rightarrow> anthropicEvent list \<times> anthropicStreamState" where
  "argumentsStep tc st =
     (case (tcd_arguments tc, map_of (toolCalls st) (tcd_index tc)) of
        (Some a, Some info) \<Rightarrow>
          ([ContentBlockDelta (tci_blockIndex info) (InputJsonDelta a)],
           st\<lparr> toolCalls :=
                 (tcd_index tc, info\<lparr> tci_arguments := tci_arguments info @ a \<rparr>) # toolCalls st \<rparr>)
      | _ \<Rightarrow> ([], st))"

text \<open>
  Modelled from the spec: step 3 of the missing translator for one entry of
  \<^verbatim>\<open>delta.tool_calls\<close>. An entry that opens a call without id or name fails.
\<close>

definition toolCallStep ::
  "toolCallDelta \<Rightarrow> anthropicStreamState \<Rightarrow>
     error + (anthropicEvent list \<times> anthropicStreamState)" where
  "toolCallStep tc st =
     (case map_of (toolCalls st) (tcd_index tc) of
        Some info \<Rightarrow> Inr (argumentsStep tc st)
      | None \<Rightarrow>
          (case (tcd_id tc, tcd_name tc) of
             (Some i, Some n) \<Rightarrow>
               (let (closed, s) = closeOpenBlock st;
                    s1 = s\<lparr> contentBlockOpen := True,
                            toolCalls :=
                              (tcd_index tc,
                               \<lparr> tci_id = i, tci_name = n,
                                 tci_blockIndex = contentBlockIndex s, tci_arguments = [] \<rparr>)
                              # toolCalls s \<rparr>;
                    (deltas, s2) = argumentsStep tc s1
                in Inr (closed @ [ContentBlockStart (contentBlockIndex s) (ToolUseStart i n)] @ deltas,
                        s2))
           | _ \<Rightarrow> Inl MalformedToolCall))"

text \<open>Modelled from the spec: step 3 of the missing translator, over all entries in order.\<close>

fun toolCallsStep ::
  "toolCallDelta list \<Rightarrow> anthropicStreamState \<Rightarrow>
     error + (anthropicEvent list \<times> anthropicStreamState)" where
  "toolCallsStep [] st = Inr ([], st)"
| "toolCallsStep (tc # tcs) st =
     (case toolCallStep tc st of
        Inl e \<Rightarrow> Inl e
      | Inr (evs, st1) \<Rightarrow>
          (case toolCallsStep tcs st1 of
             Inl e \<Rightarrow> Inl e
           | Inr (evs', st2) \<Rightarrow> Inr (evs @ evs', st2)))"

text \<open>Modelled from the spec: step 4 of the missing translator.\<close>

definition finishStep ::
  "finish_reason option \<Rightarrow> usage option \<Rightarrow> anthropicStreamState \<Rightarrow>
     anthropicEvent list \<times> anthropicStreamState" where
  "finishStep f u st =
     (case f of
        None \<Rightarrow> ([], st)
      | Some reason \<Rightarrow>
          (let (closed, s) = closeOpenBlock st
           in (closed @ [MessageDelta (mapStopReason reason) u, MessageStop], s)))"

text \<open>
  Modelled from the spec: \<^verbatim>\<open>translateChunkToAnthropicEvents\<close>, which is missing from the
  sources; steps 1 to 4 in order, text before tool calls.
\<close>

definition translateChunkToAnthropicEvents ::
  "chatCompletionChunk \<Rightarrow> anthropicStreamState \<Rightarrow>
     error + (anthropicEvent list \<times> anthropicStreamState)" where
  "translateChunkToAnthropicEvents chunk st =
     (let (e1, s1) = messageStartStep st in
      case chunk_choices chunk of
        [] \<Rightarrow> Inr (e1, s1)
      | c # _ \<Rightarrow>
          (let (e2, s2) = contentStep (delta_content (choice_delta c)) s1 in
           case toolCallsStep
                  (case delta_tool_calls (choice_delta c) of None \<Rightarrow> [] | Some tcs \<Rightarrow> tcs) s2 of
             Inl e \<Rightarrow> Inl e
           | Inr (e3, s3) \<Rightarrow>
               (let (e4, s4) = finishStep (choice_finish_reason c) (chunk_usage chunk) s3
                in Inr (e1 @ e2 @ e3 @ e4, s4))))"

subsection \<open>The handler's loop\<close>

text \<open>
  One record of the upstream event stream: \<^verbatim>\<open>rawEvent.data\<close> may be absent. The
  stream is the list of the records read from it; \<open>parse\<close> is \<^verbatim>\<open>JSON.parse\<close> read at the chunk
  type, \<open>None\<close> where it throws.
\<close>

record rawEvent =
  data :: "string option"

definition initialStreamState :: anthropicStreamState where
  "initialStreamState =
     \<lparr> messageStartSent = False, contentBlockIndex = 0, contentBlockOpen = False, toolCalls = [] \<rparr>"

text \<open>
  The \<^verbatim>\<open>for await\<close> loop; the result is the list of events written with
  \<^verbatim>\<open>stream.writeSSE\<close>. \<^verbatim>\<open>[DONE]\<close> breaks, a record without data is skipped, and
  an exception in the \<^verbatim>\<open>try\<close> block (from \<^verbatim>\<open>JSON.parse\<close> or from the translator,
  before any event of the chunk is written) writes the error event and breaks.
\<close>

fun streamLoop ::
  "(string \<Rightarrow> chatCompletionChunk option) \<Rightarrow> rawEvent list \<Rightarrow> anthropicStreamState \<Rightarrow>
     anthropicEvent list" where
  "streamLoop parse [] st = []"
| "streamLoop parse (rawEvent # rest) st =
     (if data rawEvent = Some ''[DONE]'' then []
      else
        (case data rawEvent of
           None \<Rightarrow> streamLoop parse rest st
         | Some d \<Rightarrow>
             if d = [] then streamLoop parse rest st
             else
               (case parse d of
                  None \<Rightarrow> [ErrorEvent]
                | Some chunk \<Rightarrow>
                    (case translateChunkToAnthropicEvents chunk st of
                       Inl err \<Rightarrow> [ErrorEvent]
                     | Inr (events, st') \<Rightarrow> events @ streamLoop parse rest st'))))"

text \<open>The callback of \<^verbatim>\<open>streamSSE\<close>: the ping, then the loop from the initial state.\<close>

definition handleCompletionStream ::
  "(string \<Rightarrow> chatCompletionChunk option) \<Rightarrow> rawEvent list \<Rightarrow> anthropicEvent list" where
  "handleCompletionStream parse response = Ping # streamLoop parse response initialStreamState"

text \<open>The record of the stream that is translated first, if there is one.\<close>

fun firstData :: "rawEvent list \<Rightarrow> string option" where
  "firstData [] = None"
| "firstData (rawEvent # rest) =
     (if data rawEvent = Some ''[DONE]'' then None
      else
        (case data rawEvent of
           None \<Rightarrow> firstData rest
         | Some d \<Rightarrow> if d = [] then firstData rest else Some d))"

text \<open>Example stream: the chunks of the specification's scenario, under short names.\<close>

definition textChunk :: "string \<Rightarrow> chatCompletionChunk" where
  "textChunk s =
     \<lparr> chunk_choices =
         [\<lparr> choice_delta = \<lparr> delta_content = Some s, delta_role = None, delta_tool_calls = None \<rparr>,
            choice_finish_reason = None \<rparr>],
       chunk_usage = None \<rparr>"

definition finishChunk :: "finish_reason \<Rightarrow> chatCompletionChunk" where
  "finishChunk f =
     \<lparr> chunk_choices =
         [\<lparr> choice_delta = \<lparr> delta_content = None, delta_role = None, delta_tool_calls = None \<rparr>,
            choice_finish_reason = Some f \<rparr>],
       chunk_usage = None \<rparr>"

definition exampleParse :: "string \<Rightarrow> chatCompletionChunk option" where
  "exampleParse = map_of [(''Hel'', textChunk ''Hel''), (''lo'', textChunk ''lo''),
                          (''stop'', finishChunk Stop)]"

text \<open>The \<^verbatim>\<open>content_block_start\<close>, \<^verbatim>\<open>content_block_delta\<close> and \<^verbatim>\<open>content_block_stop\<close> events.\<close>

fun isContentBlockEvent :: "anthropicEvent \<Rightarrow> bool" where
  "isContentBlockEvent (ContentBlockStart i b) = True"
| "isContentBlockEvent (ContentBlockDelta i d) = True"
| "isContentBlockEvent (ContentBlockStop i) = True"
| "isContentBlockEvent _ = False"

text \<open>The stream of the specification's scenario, with a record without data in front.\<close>

definition exampleStream :: "rawEvent list" where
  "exampleStream =
     [\<lparr> data = None \<rparr>, \<lparr> data = Some ''Hel'' \<rparr>, \<lparr> data = Some ''lo'' \<rparr>,
      \<lparr> data = Some ''stop'' \<rparr>, \<lparr> data = Some ''[DONE]'' \<rparr>]"

section \<open>Properties of the response translator\<close>

lemma choicesLoop_stopReason:
  "choicesLoop parse cs ts us sr = Inr (ts', us', sr') \<Longrightarrow>
   sr' = (if Tool_calls \<in> set (map finish_reason cs) then Some Tool_calls
          else if sr = Some Stop then Some (firstNonStop (map finish_reason cs))
          else sr)"
proof (induction cs arbitrary: ts us sr)
  case Nil
  then show ?case by (simp add: firstNonStop_def)
next
  case (Cons c cs)
  let ?sr1 = "if finish_reason c = Tool_calls \<or> sr = Some Stop
              then Some (finish_reason c) else sr"
  from Cons.prems obtain tu where
    run: "choicesLoop parse cs
            (ts @ getAnthropicTextBlocks (rm_content (choice_message c))) (us @ tu) ?sr1
          = Inr (ts', us', sr')"
    by (auto simp: Let_def split: sum.splits)
  from Cons.IH [OF run] have
    "sr' = (if Tool_calls \<in> set (map finish_reason cs) then Some Tool_calls
            else if ?sr1 = Some Stop then Some (firstNonStop (map finish_reason cs))
            else ?sr1)" .
  then show ?case
    by (cases "finish_reason c") (auto simp: firstNonStop_def)
qed

lemma mapToolCalls_returns:
  "list_all (\<lambda>t. parse (tc_arguments t) \<noteq> None) tcs \<Longrightarrow> \<exists>bs. mapToolCalls parse tcs = Inr bs"
  by (induction tcs) auto

lemma getAnthropicToolUseBlocks_returns:
  "argumentsParse parse c \<Longrightarrow>
   \<exists>bs. getAnthropicToolUseBlocks parse (rm_tool_calls (choice_message c)) = Inr bs"
proof (cases "rm_tool_calls (choice_message c)")
  case None
  then show ?thesis by simp
next
  case (Some tcs)
  assume "argumentsParse parse c"
  with Some have "list_all (\<lambda>t. parse (tc_arguments t) \<noteq> None) tcs"
    unfolding argumentsParse_def by simp
  from mapToolCalls_returns [OF this] Some show ?thesis by simp
qed

lemma choicesLoop_returns:
  "list_all (argumentsParse parse) cs \<Longrightarrow> \<exists>r. choicesLoop parse cs ts us sr = Inr r"
proof (induction cs arbitrary: ts us sr)
  case Nil
  then show ?case by simp
next
  case (Cons c cs)
  from Cons.prems have "argumentsParse parse c" and rest: "list_all (argumentsParse parse) cs"
    by simp_all
  from getAnthropicToolUseBlocks_returns [OF this(1)] obtain tu where
    "getAnthropicToolUseBlocks parse (rm_tool_calls (choice_message c)) = Inr tu" ..
  with Cons.IH [OF rest] show ?case by (simp add: Let_def)
qed

lemma translateToAnthropic_returns:
  "list_all (argumentsParse parse) (choices response) \<Longrightarrow>
   \<exists>out. translateToAnthropic mapStop parse response = Inr out"
  using choicesLoop_returns [of parse "choices response" "[]" "[]"
          "initialStopReason (choices response)"]
  by (auto simp: translateToAnthropic_def split: prod.splits)

text \<open>
  What the loop computes. When the translator returns a response for an upstream response
  with one or more choices, its stop reason is the image (under the terminal-reason
  mapping) of: \<^verbatim>\<open>tool_calls\<close> if any choice reports \<^verbatim>\<open>tool_calls\<close>; otherwise
  the first finish reason, in choice order, that is not \<^verbatim>\<open>stop\<close>; and
  \<^verbatim>\<open>stop\<close> when every choice reports \<^verbatim>\<open>stop\<close>.
\<close>

lemma translateToAnthropic_stop_reason:
  assumes "translateToAnthropic mapStop parse response = Inr out"
    and "choices response \<noteq> []"
  shows "stop_reason out =
           mapStop (Some (if Tool_calls \<in> set (map finish_reason (choices response))
                          then Tool_calls
                          else firstNonStop (map finish_reason (choices response))))"
proof -
  from assms(1) obtain ts us sr where
    run: "choicesLoop parse (choices response) [] [] (initialStopReason (choices response))
          = Inr (ts, us, sr)"
    and out: "stop_reason out = mapStop sr"
    by (auto simp: translateToAnthropic_def split: sum.splits prod.splits)
  from assms(2) obtain c cs where cs: "choices response = c # cs"
    by (cases "choices response") auto
  have "sr = Some (if Tool_calls \<in> set (map finish_reason (choices response))
                   then Tool_calls
                   else firstNonStop (map finish_reason (choices response)))"
    using choicesLoop_stopReason [OF run] cs
    by (cases "finish_reason c") (auto simp: initialStopReason_def firstNonStop_def)
  with out show ?thesis by simp
qed

lemma translateToAnthropic_stop_reason_example:
  "choices (exampleResponse [Stop, Tool_calls, Length] None) \<noteq> [] \<and>
   map_sum id stop_reason
     (translateToAnthropic id Some (exampleResponse [Stop, Tool_calls, Length] None)
        :: error + (string, finish_reason option) anthropicResponse)
   = Inr (Some Tool_calls)"
proof -
  let ?r = "exampleResponse [Stop, Tool_calls, Length] None"
  obtain out :: "(string, finish_reason option) anthropicResponse"
    where h: "translateToAnthropic id Some ?r = Inr out"
    using translateToAnthropic_returns [of Some ?r id]
    by (auto simp: exampleResponse_def textChoice_def argumentsParse_def)
  have ne: "choices ?r \<noteq> []" by (simp add: exampleResponse_def)
  from translateToAnthropic_stop_reason [OF h ne] h ne show ?thesis
    by (simp add: exampleResponse_def textChoice_def)
qed

text \<open>
  The rule of the code's comment ("use the finish_reason from the first choice, or
  prioritize tool_calls") is what the loop computes whenever some choice reports
  \<^verbatim>\<open>tool_calls\<close>, or the first choice does not report \<^verbatim>\<open>stop\<close>, or every choice
  reports \<^verbatim>\<open>stop\<close>.
\<close>

lemma translateToAnthropic_stop_reason_first:
  assumes "translateToAnthropic mapStop parse response = Inr out"
    and "choices response = c # cs"
    and "Tool_calls \<in> set (map finish_reason (choices response))
         \<or> finish_reason c \<noteq> Stop
         \<or> (\<forall>f \<in> set (map finish_reason (choices response)). f = Stop)"
  shows "stop_reason out = mapStop (spec_stopReason (map finish_reason (choices response)))"
proof -
  have ne: "choices response \<noteq> []" using assms(2) by simp
  let ?frs = "map finish_reason (choices response)"
  have "\<not> Tool_calls \<in> set ?frs \<Longrightarrow> firstNonStop ?frs = finish_reason c"
  proof -
    assume nt: "\<not> Tool_calls \<in> set ?frs"
    with assms(3) have "finish_reason c \<noteq> Stop \<or> (\<forall>f \<in> set ?frs. f = Stop)" by blast
    then show ?thesis
    proof
      assume "finish_reason c \<noteq> Stop"
      then show ?thesis using assms(2) by (simp add: firstNonStop_def)
    next
      assume all: "\<forall>f \<in> set ?frs. f = Stop"
      then have "filter (\<lambda>f. f \<noteq> Stop) ?frs = []" by (simp add: filter_empty_conv)
      moreover from all assms(2) have "finish_reason c = Stop" by simp
      ultimately show ?thesis by (simp add: firstNonStop_def)
    qed
  qed
  with translateToAnthropic_stop_reason [OF assms(1) ne] assms(2)
  show ?thesis by (auto simp: spec_stopReason_def)
qed

text \<open>
  Claim C1: the stop reason is the first choice's finish reason, unless some choice reports
  \<^verbatim>\<open>tool_calls\<close>. The code breaks it where the first choice reports \<^verbatim>\<open>stop\<close> and
  a later one another reason: with finish reasons \<^verbatim>\<open>stop\<close>, \<^verbatim>\<open>length\<close> no choice
  reports \<^verbatim>\<open>tool_calls\<close>, the rule gives \<^verbatim>\<open>stop\<close>, and the translator's stop reason
  is \<^verbatim>\<open>length\<close>.
\<close>

theorem translateToAnthropic_stop_then_length:
  "spec_stopReason (map finish_reason (choices (exampleResponse [Stop, Length] None)))
     = Some Stop \<and>
   map_sum id stop_reason
     (translateToAnthropic id Some (exampleResponse [Stop, Length] None)
        :: error + (string, finish_reason option) anthropicResponse)
   = Inr (Some Length)"
  by (simp add: spec_stopReason_def exampleResponse_def textChoice_def
      translateToAnthropic_def initialStopReason_def)

text \<open>
  Claim C7. The usage block of the translated response: \<open>input_tokens\<close> is
  \<open>prompt_tokens\<close> minus \<open>cached_tokens\<close> (0 when the cached-token detail is absent),
  \<open>output_tokens\<close> is \<open>completion_tokens\<close>, and \<open>cache_read_input_tokens\<close> is present
  exactly when the cached-token detail is, with its value. (When the upstream response has
  no usage at all, both counters are 0 and there is no cache-read counter.)
\<close>

theorem translateToAnthropic_usage:
  assumes "translateToAnthropic mapStop parse response = Inr out"
  shows "ar_usage out =
           (case resp_usage response of
              None \<Rightarrow> \<lparr> input_tokens = 0, output_tokens = 0, cache_read_input_tokens = None \<rparr>
            | Some u \<Rightarrow>
                \<lparr> input_tokens =
                    prompt_tokens u
                    - (case prompt_tokens_details u of None \<Rightarrow> 0 | Some d \<Rightarrow> cached_tokens d),
                  output_tokens = completion_tokens u,
                  cache_read_input_tokens = map_option cached_tokens (prompt_tokens_details u) \<rparr>)"
proof -
  from assms have "ar_usage out = translateUsage (resp_usage response)"
    by (auto simp: translateToAnthropic_def split: sum.splits prod.splits)
  then show ?thesis
    by (simp add: translateUsage_def cachedTokensOf_def split: option.splits)
qed

theorem translateToAnthropic_usage_witness:
  "map_sum id ar_usage
     (translateToAnthropic id Some
        (exampleResponse [Stop]
           (Some \<lparr> prompt_tokens = 120, completion_tokens = 7, total_tokens = 127,
                   prompt_tokens_details = Some \<lparr> cached_tokens = 100 \<rparr> \<rparr>))
        :: error + (string, finish_reason option) anthropicResponse)
   = Inr \<lparr> input_tokens = 20, output_tokens = 7, cache_read_input_tokens = Some 100 \<rparr>"
proof -
  let ?r = "exampleResponse [Stop]
           (Some \<lparr> prompt_tokens = 120, completion_tokens = 7, total_tokens = 127,
                   prompt_tokens_details = Some \<lparr> cached_tokens = 100 \<rparr> \<rparr>)"
  obtain out :: "(string, finish_reason option) anthropicResponse"
    where h: "translateToAnthropic id Some ?r = Inr out"
    using translateToAnthropic_returns [of Some ?r id]
    by (auto simp: exampleResponse_def textChoice_def argumentsParse_def)
  from translateToAnthropic_usage [OF h] h show ?thesis
    by (simp add: exampleResponse_def)
qed

section \<open>Properties of the request translator's message mapping\<close>

lemma toolResultMessages_length:
  "length (concat (map toolResultMessage (filter isToolResult bs))) = length (filter isToolResult bs)"
proof (induction bs)
  case Nil
  then show ?case by simp
next
  case (Cons b bs)
  then show ?case by (cases b) simp_all
qed

lemma toolResultMessages_role:
  "map role (concat (map toolResultMessage (filter isToolResult bs)))
   = replicate (length (filter isToolResult bs)) Tool"
proof (induction bs)
  case Nil
  then show ?case by simp
next
  case (Cons b bs)
  then show ?case by (cases b) simp_all
qed

lemma toolResultMessages_id:
  "map tool_call_id (concat (map toolResultMessage (filter isToolResult bs)))
   = map tool_use_id (filter isToolResult bs)"
proof (induction bs)
  case Nil
  then show ?case by simp
next
  case (Cons b bs)
  then show ?case by (cases b) simp_all
qed

lemma handleUserMessage_blocks:
  "a_content m = ABlocks bs \<Longrightarrow>
   handleUserMessage m =
     concat (map toolResultMessage (filter isToolResult bs))
     @ (if filter (\<lambda>b. \<not> isToolResult b) bs = [] then []
        else [userMessage (mapContent (ABlocks (filter (\<lambda>b. \<not> isToolResult b) bs)))])"
  by (simp add: handleUserMessage_def userMessage_def Let_def)

text \<open>
  Claim C5. For a user message with a content-block list, translation produces one
  tool-role message per \<^verbatim>\<open>tool_result\<close> block, in order and with
  \<open>tool_call_id\<close> equal to the block's \<open>tool_use_id\<close>, first; what follows is
  exactly one user-role message for the remaining blocks when there are any, and nothing
  when there are none (then no message of the result has the user role).
\<close>

theorem handleUserMessage_tool_results_first:
  assumes "a_content m = ABlocks bs"
  shows "map role (take (length (filter isToolResult bs)) (handleUserMessage m))
           = replicate (length (filter isToolResult bs)) Tool
       \<and> map tool_call_id (take (length (filter isToolResult bs)) (handleUserMessage m))
           = map tool_use_id (filter isToolResult bs)
       \<and> drop (length (filter isToolResult bs)) (handleUserMessage m)
           = (if filter (\<lambda>b. \<not> isToolResult b) bs = [] then []
              else [userMessage (mapContent (ABlocks (filter (\<lambda>b. \<not> isToolResult b) bs)))])
       \<and> length (filter (\<lambda>x. role x = User) (handleUserMessage m))
           = (if filter (\<lambda>b. \<not> isToolResult b) bs = [] then 0 else 1)"
proof -
  let ?tms = "concat (map toolResultMessage (filter isToolResult bs))"
  let ?n = "length (filter isToolResult bs)"
  have len: "length ?tms = ?n" by (rule toolResultMessages_length)
  have roles: "map role ?tms = replicate ?n Tool" by (rule toolResultMessages_role)
  have nouser: "filter (\<lambda>x. role x = User) ?tms = []"
  proof -
    have "\<forall>r \<in> set (map role ?tms). r = Tool" unfolding roles by simp
    then show ?thesis by (auto simp: filter_empty_conv)
  qed
  show ?thesis
    unfolding handleUserMessage_blocks [OF assms]
    using len roles nouser toolResultMessages_id [of bs]
    by (simp add: userMessage_def)
qed


theorem handleUserMessage_tool_results_first_witness:
  "handleUserMessage
      \<lparr> a_role = AUser,
        a_content = ABlocks [TextBlock ''thanks'', ToolResultBlock ''t1'' (TRString ''42''),
                             ToolResultBlock ''t2'' (TRString ''43'') :: string block] \<rparr>
     = [\<lparr> role = Tool, content = CString ''42'', tool_calls = None, tool_call_id = Some ''t1'' \<rparr>,
        \<lparr> role = Tool, content = CString ''43'', tool_calls = None, tool_call_id = Some ''t2'' \<rparr>,
        userMessage (CString ''thanks'')]
   \<and> filter (\<lambda>x. role x = User) (handleUserMessage
      \<lparr> a_role = AUser,
        a_content = ABlocks [ToolResultBlock ''t1'' (TRString ''42'') :: string block] \<rparr>)
     = []"
proof -
  let ?ub = "[TextBlock ''thanks'', ToolResultBlock ''t1'' (TRString ''42''),
              ToolResultBlock ''t2'' (TRString ''43'') :: string block]"
  let ?u = "\<lparr> a_role = AUser, a_content = ABlocks ?ub \<rparr>"
  let ?vb = "[ToolResultBlock ''t1'' (TRString ''42'') :: string block]"
  let ?v = "\<lparr> a_role = AUser, a_content = ABlocks ?vb \<rparr>"
  have "drop 2 (handleUserMessage ?u) = [userMessage (CString ''thanks'')]"
    using handleUserMessage_tool_results_first [of ?u ?ub] by (simp add: numeral_2_eq_2)
  moreover have "take 2 (handleUserMessage ?u)
     = [\<lparr> role = Tool, content = CString ''42'', tool_calls = None, tool_call_id = Some ''t1'' \<rparr>,
        \<lparr> role = Tool, content = CString ''43'', tool_calls = None, tool_call_id = Some ''t2'' \<rparr>]"
    by (simp add: handleUserMessage_def)
  ultimately have 1: "handleUserMessage ?u
     = [\<lparr> role = Tool, content = CString ''42'', tool_calls = None, tool_call_id = Some ''t1'' \<rparr>,
        \<lparr> role = Tool, content = CString ''43'', tool_calls = None, tool_call_id = Some ''t2'' \<rparr>,
        userMessage (CString ''thanks'')]"
    using append_take_drop_id [of 2 "handleUserMessage ?u"] by simp
  have 2: "filter (\<lambda>x. role x = User) (handleUserMessage ?v) = []"
    using handleUserMessage_tool_results_first [of ?v ?vb] by simp
  from 1 2 show ?thesis by blast
qed

lemma handleAssistantMessage_blocks:
  "a_content m = ABlocks bs \<Longrightarrow>
   handleAssistantMessage stringify m =
     (if list_ex isToolUse bs
      then [\<lparr> role = Assistant,
              content = (if allTextContent bs = [] then CNull else CString (allTextContent bs)),
              tool_calls = Some (concat (map (toolUseCall stringify) (filter isToolUse bs))),
              tool_call_id = None \<rparr>]
      else [\<lparr> role = Assistant, content = mapContent (ABlocks bs),
              tool_calls = None, tool_call_id = None \<rparr>])"
  by (auto simp: handleAssistantMessage_def Let_def list_ex_iff filter_empty_conv)

lemma mapContent_null_iff: "mapContent c = CNull \<longleftrightarrow> c = AOther"
  by (cases c) simp_all

lemma mapToolResultContent_not_null: "mapToolResultContent c \<noteq> CNull"
  by (cases c) simp_all

lemma toolResultMessages_content:
  "x \<in> set (concat (map toolResultMessage bs)) \<Longrightarrow> content x \<noteq> CNull"
proof (induction bs)
  case Nil
  then show ?case by simp
next
  case (Cons b bs)
  then show ?case by (cases b) (auto simp: mapToolResultContent_not_null)
qed

lemma handleUserMessage_blocks_not_null:
  assumes "a_content m = ABlocks bs" and "x \<in> set (handleUserMessage m)"
  shows "content x \<noteq> CNull"
proof -
  from assms(2) have
    "x \<in> set (concat (map toolResultMessage (filter isToolResult bs)))
     \<or> x = userMessage (mapContent (ABlocks (filter (\<lambda>b. \<not> isToolResult b) bs)))"
    unfolding handleUserMessage_blocks [OF assms(1)] by (auto split: if_splits)
  then show ?thesis
  proof
    assume "x \<in> set (concat (map toolResultMessage (filter isToolResult bs)))"
    then show ?thesis by (rule toolResultMessages_content)
  next
    assume "x = userMessage (mapContent (ABlocks (filter (\<lambda>b. \<not> isToolResult b) bs)))"
    then show ?thesis
      using mapContent_null_iff [of "ABlocks (filter (\<lambda>b. \<not> isToolResult b) bs)"]
      by (simp add: userMessage_def del: mapContent.simps)
  qed
qed

lemma handleUserMessage_null_iff:
  "(\<exists>x \<in> set (handleUserMessage m). content x = CNull) \<longleftrightarrow> a_content m = AOther"
proof (cases "a_content m")
  case (AString s)
  then show ?thesis by (simp add: handleUserMessage_def)
next
  case (ABlocks bs)
  with handleUserMessage_blocks_not_null [OF ABlocks] show ?thesis by auto
next
  case AOther
  then show ?thesis by (simp add: handleUserMessage_def)
qed

text \<open>
  The text the tool-call path collects is empty exactly when the text and thinking blocks,
  joined in their original order, give the empty string.
\<close>

lemma join_empty_iff: "sep \<noteq> [] \<Longrightarrow> join sep xs = [] \<longleftrightarrow> xs = [] \<or> xs = [[]]"
  by (induction sep xs rule: join.induct) auto

lemma empty_or_single_iff:
  "(xs = [] \<or> xs = [[]]) \<longleftrightarrow> (length xs \<le> 1 \<and> (\<forall>x \<in> set xs. x = []))"
  by (cases xs) auto

lemma length_text_thinking:
  "length (filter isText bs) + length (filter isThinking bs)
   = length (filter (\<lambda>b. isText b \<or> isThinking b) bs)"
proof (induction bs)
  case Nil
  then show ?case by simp
next
  case (Cons b bs)
  then show ?case by (cases b) simp_all
qed

lemma allTextContent_empty_iff: "allTextContent bs = [] \<longleftrightarrow> collapsedText bs = []"
proof -
  let ?a = "map blockText (filter isText bs) @ map blockText (filter isThinking bs)"
  let ?c = "map blockText (filter (\<lambda>b. isText b \<or> isThinking b) bs)"
  have len: "length ?a = length ?c" using length_text_thinking [of bs] by simp
  have set: "set ?a = set ?c" by auto
  have "(?a = [] \<or> ?a = [[]]) \<longleftrightarrow> (?c = [] \<or> ?c = [[]])"
    unfolding empty_or_single_iff [of ?a] empty_or_single_iff [of ?c] len set ..
  then show ?thesis
    by (simp only: allTextContent_def collapsedText_def join_empty_iff blankLine_def
        not_Cons_self2 list.distinct simp_thms)
qed

lemma filter_text_others:
  "filter (\<lambda>b. isText b \<or> isThinking b) (filter (\<lambda>b. \<not> isToolResult b) bs)
   = filter (\<lambda>b. isText b \<or> isThinking b) bs"
proof (induction bs)
  case Nil
  then show ?case by simp
next
  case (Cons b bs)
  then show ?case by (cases b) simp_all
qed

lemma list_ex_image_others:
  "list_ex isImage (filter (\<lambda>b. \<not> isToolResult b) bs) = list_ex isImage bs"
proof (induction bs)
  case Nil
  then show ?case by simp
next
  case (Cons b bs)
  then show ?case by (cases b) simp_all
qed

lemma mapContent_others:
  "\<not> list_ex isImage bs \<Longrightarrow>
   mapContent (ABlocks (filter (\<lambda>b. \<not> isToolResult b) bs)) = CString (collapsedText bs)"
  by (simp add: collapsedText_def filter_text_others list_ex_image_others del: filter_filter)

text \<open>
  Claim C3, as the code has it. The upstream content is null in exactly two cases: an
  assistant message whose block list carries at least one \<^verbatim>\<open>tool_use\<close> block and whose
  text and thinking blocks collapse to the empty string (the content is then never the empty
  string), and a message whose content is neither a string nor a block list. In every other
  case an empty mapping result is passed on as \<^verbatim>\<open>""\<close>: for a block list without image
  whose text collapses to the empty string, an assistant message without \<^verbatim>\<open>tool_use\<close>
  block and the user-role message of a user turn carry the empty string, not null.
\<close>

theorem null_content_cases:
  "(\<exists>msg. handleAssistantMessage stringify m = [msg]
      \<and> (content msg = CNull \<longleftrightarrow>
           a_content m = AOther
           \<or> (\<exists>bs. a_content m = ABlocks bs \<and> list_ex isToolUse bs \<and> collapsedText bs = []))
      \<and> ((\<exists>bs. a_content m = ABlocks bs \<and> list_ex isToolUse bs) \<longrightarrow> content msg \<noteq> CString []))
   \<and> ((\<exists>x \<in> set (handleUserMessage m). content x = CNull) \<longleftrightarrow> a_content m = AOther)
   \<and> (\<forall>bs. a_content m = ABlocks bs \<and> \<not> list_ex isImage bs \<and> collapsedText bs = [] \<longrightarrow>
        (\<not> list_ex isToolUse bs \<longrightarrow>
           map content (handleAssistantMessage stringify m) = [CString []])
        \<and> (filter (\<lambda>b. \<not> isToolResult b) bs \<noteq> [] \<longrightarrow>
           drop (length (filter isToolResult bs)) (handleUserMessage m)
             = [userMessage (CString [])]))"
proof (intro conjI)
  show "\<exists>msg. handleAssistantMessage stringify m = [msg]
      \<and> (content msg = CNull \<longleftrightarrow>
           a_content m = AOther
           \<or> (\<exists>bs. a_content m = ABlocks bs \<and> list_ex isToolUse bs \<and> collapsedText bs = []))
      \<and> ((\<exists>bs. a_content m = ABlocks bs \<and> list_ex isToolUse bs) \<longrightarrow> content msg \<noteq> CString [])"
  proof (cases "a_content m")
    case (AString s)
    then show ?thesis by (simp add: handleAssistantMessage_def)
  next
    case AOther
    then show ?thesis by (simp add: handleAssistantMessage_def)
  next
    case (ABlocks bs)
    show ?thesis
      unfolding handleAssistantMessage_blocks [OF ABlocks]
      using ABlocks mapContent_null_iff [of "ABlocks bs"]
      by (simp add: allTextContent_empty_iff del: mapContent.simps)
  qed
  show "(\<exists>x \<in> set (handleUserMessage m). content x = CNull) \<longleftrightarrow> a_content m = AOther"
    by (rule handleUserMessage_null_iff)
  show "\<forall>bs. a_content m = ABlocks bs \<and> \<not> list_ex isImage bs \<and> collapsedText bs = [] \<longrightarrow>
        (\<not> list_ex isToolUse bs \<longrightarrow>
           map content (handleAssistantMessage stringify m) = [CString []])
        \<and> (filter (\<lambda>b. \<not> isToolResult b) bs \<noteq> [] \<longrightarrow>
           drop (length (filter isToolResult bs)) (handleUserMessage m)
             = [userMessage (CString [])])"
  proof (intro allI impI conjI)
    fix bs
    assume a: "a_content m = ABlocks bs \<and> \<not> list_ex isImage bs \<and> collapsedText bs = []"
    then have m: "a_content m = ABlocks bs" and ni: "\<not> list_ex isImage bs"
      and e: "collapsedText bs = []" by simp_all
    have mc: "mapContent (ABlocks bs) = CString []"
      using ni e by (simp add: collapsedText_def)
    {
      assume "\<not> list_ex isToolUse bs"
      then show "map content (handleAssistantMessage stringify m) = [CString []]"
        unfolding handleAssistantMessage_blocks [OF m] using mc by simp
    }
    {
      assume ne: "filter (\<lambda>b. \<not> isToolResult b) bs \<noteq> []"
      show "drop (length (filter isToolResult bs)) (handleUserMessage m)
             = [userMessage (CString [])]"
        unfolding handleUserMessage_blocks [OF m]
        using ne toolResultMessages_length [of bs] mapContent_others [OF ni] e by simp
    }
  qed
qed

theorem null_content_cases_witness:
  "map content (handleAssistantMessage id
      \<lparr> a_role = AAssistant, a_content = ABlocks [ToolUseBlock ''t1'' ''get'' ''{}''] \<rparr>) = [CNull]
   \<and> map content (handleAssistantMessage id
      \<lparr> a_role = AAssistant, a_content = (AOther :: string anthropicContent) \<rparr>) = [CNull]
   \<and> map content (handleAssistantMessage id
      \<lparr> a_role = AAssistant, a_content = ABlocks [TextBlock [] :: string block] \<rparr>) = [CString []]
   \<and> handleUserMessage
      \<lparr> a_role = AUser, a_content = ABlocks [TextBlock [] :: string block] \<rparr>
       = [userMessage (CString [])]"
proof -
  let ?tb = "[ToolUseBlock ''t1'' ''get'' ''{}'']"
  let ?t = "\<lparr> a_role = AAssistant, a_content = ABlocks ?tb \<rparr>"
  let ?o = "\<lparr> a_role = AAssistant, a_content = (AOther :: string anthropicContent) \<rparr>"
  let ?eb = "[TextBlock [] :: string block]"
  let ?e = "\<lparr> a_role = AAssistant, a_content = ABlocks ?eb \<rparr>"
  let ?u = "\<lparr> a_role = AUser, a_content = ABlocks ?eb \<rparr>"
  have ct: "collapsedText ?tb = []" and ce: "collapsedText ?eb = []"
    by (simp_all add: collapsedText_def)
  from null_content_cases [of id ?t] obtain msg where
    "handleAssistantMessage id ?t = [msg]"
    "content msg = CNull \<longleftrightarrow>
       a_content ?t = AOther
       \<or> (\<exists>bs. a_content ?t = ABlocks bs \<and> list_ex isToolUse bs \<and> collapsedText bs = [])"
    by blast
  with ct have 1: "map content (handleAssistantMessage id ?t) = [CNull]" by simp
  from null_content_cases [of id ?o] obtain msg' where
    "handleAssistantMessage id ?o = [msg']"
    "content msg' = CNull \<longleftrightarrow>
       a_content ?o = AOther
       \<or> (\<exists>bs. a_content ?o = ABlocks bs \<and> list_ex isToolUse bs \<and> collapsedText bs = [])"
    by blast
  then have 2: "map content (handleAssistantMessage id ?o) = [CNull]" by simp
  from null_content_cases [of id ?e] ce
  have 3: "map content (handleAssistantMessage id ?e) = [CString []]" by simp
  from null_content_cases [of id ?u] ce
  have 4: "handleUserMessage ?u = [userMessage (CString [])]" by simp
  from 1 2 3 4 show ?thesis by blast
qed

text \<open>
  The claim as stated fails: an empty block list (no text, thinking or image block) maps to
  the empty string, and the assistant message built from it carries \<^verbatim>\<open>""\<close>, not null.
\<close>

theorem empty_content_counterexample:
  "mapContent (ABlocks ([] :: string block list)) = CString []
   \<and> map content (handleAssistantMessage id
        \<lparr> a_role = AAssistant, a_content = ABlocks ([] :: string block list) \<rparr>) = [CString []]"
  by (simp add: handleAssistantMessage_def)

text \<open>
  Where the order of the blocks is kept: the content mapper itself, the user-role message of
  a user turn, an assistant message without \<^verbatim>\<open>tool_use\<close> blocks, and an assistant
  message with \<^verbatim>\<open>tool_use\<close> blocks in which no thinking block stands before a text
  block.
\<close>

lemma texts_then_thinkings:
  "sorted_wrt (\<lambda>a b. \<not> (isThinking a \<and> isText b)) bs \<Longrightarrow>
   map blockText (filter isText bs) @ map blockText (filter isThinking bs)
   = map blockText (filter (\<lambda>b. isText b \<or> isThinking b) bs)"
proof (induction bs)
  case Nil
  then show ?case by simp
next
  case (Cons b bs)
  then have IH: "map blockText (filter isText bs) @ map blockText (filter isThinking bs)
                 = map blockText (filter (\<lambda>b. isText b \<or> isThinking b) bs)"
    by simp
  show ?case
  proof (cases "isThinking b")
    case True
    with Cons.prems have "filter isText bs = []"
      by (auto simp: filter_empty_conv)
    with IH True show ?thesis by (cases b) simp_all
  next
    case False
    with IH show ?thesis by (cases b) simp_all
  qed
qed

lemma allTextContent_ordered:
  "sorted_wrt (\<lambda>a b. \<not> (isThinking a \<and> isText b)) bs \<Longrightarrow> allTextContent bs = collapsedText bs"
  by (simp add: allTextContent_def collapsedText_def texts_then_thinkings)

lemma mapContent_no_image:
  "\<not> list_ex isImage bs \<Longrightarrow> mapContent (ABlocks bs) = CString (collapsedText bs)"
  by (simp add: collapsedText_def)

lemma handleUserMessage_no_image:
  assumes "a_content m = ABlocks bs" and "\<not> list_ex isImage bs"
    and "filter (\<lambda>b. \<not> isToolResult b) bs \<noteq> []"
  shows "drop (length (filter isToolResult bs)) (handleUserMessage m)
           = [userMessage (CString (collapsedText bs))]"
  unfolding handleUserMessage_blocks [OF assms(1)]
  using assms(3) toolResultMessages_length [of bs] mapContent_others [OF assms(2)] by simp

lemma handleAssistantMessage_no_tool_use:
  assumes "a_content m = ABlocks bs" and "\<not> list_ex isImage bs" and "\<not> list_ex isToolUse bs"
  shows "map content (handleAssistantMessage stringify m) = [CString (collapsedText bs)]"
  unfolding handleAssistantMessage_blocks [OF assms(1)]
  using assms(3) mapContent_no_image [OF assms(2)] by simp

lemma handleAssistantMessage_tool_use_ordered:
  assumes "a_content m = ABlocks bs" and "list_ex isToolUse bs"
    and "sorted_wrt (\<lambda>a b. \<not> (isThinking a \<and> isText b)) bs"
  shows "map content (handleAssistantMessage stringify m)
           = [if collapsedText bs = [] then CNull else CString (collapsedText bs)]"
  unfolding handleAssistantMessage_blocks [OF assms(1)]
  using assms(2) allTextContent_ordered [OF assms(3)] by simp

text \<open>
  Claim C4: for a block list with no image block the content is the text of the text and
  thinking blocks, in the blocks' original order, joined by a blank line, also for an
  assistant message that carries \<^verbatim>\<open>tool_use\<close> blocks. The code breaks it on that path:
  \<^verbatim>\<open>handleAssistantMessage\<close> collects the text blocks before the thinking blocks, so for
  the blocks thinking \<^verbatim>\<open>plan\<close>, text \<^verbatim>\<open>answer\<close>, \<^verbatim>\<open>tool_use\<close> the content is
  \<^verbatim>\<open>answer\<close>, blank line, \<^verbatim>\<open>plan\<close>, where the original order, which the sibling
  \<^verbatim>\<open>mapContent\<close> keeps on the same blocks, is \<^verbatim>\<open>plan\<close>, blank line, \<^verbatim>\<open>answer\<close>.
\<close>

theorem handleAssistantMessage_thinking_after_text:
  "\<not> list_ex isImage [ThinkingBlock ''plan'', TextBlock ''answer'',
                       ToolUseBlock ''t1'' ''get'' ''{}'']
   \<and> map content (handleAssistantMessage id
        \<lparr> a_role = AAssistant,
          a_content = ABlocks [ThinkingBlock ''plan'', TextBlock ''answer'',
                               ToolUseBlock ''t1'' ''get'' ''{}''] \<rparr>)
     = [CString (''answer'' @ blankLine @ ''plan'')]
   \<and> collapsedText [ThinkingBlock ''plan'', TextBlock ''answer'',
                     ToolUseBlock ''t1'' ''get'' ''{}'']
     = ''plan'' @ blankLine @ ''answer''
   \<and> mapContent (ABlocks [ThinkingBlock ''plan'', TextBlock ''answer'',
                           ToolUseBlock ''t1'' ''get'' ''{}''])
     = CString (''plan'' @ blankLine @ ''answer'')"
  by (simp add: collapsedText_def handleAssistantMessage_def allTextContent_def blankLine_def)

section \<open>Properties of the model-name normalizer\<close>

text \<open>
  The matchers, against the languages of the regular expressions they stand for: what
  each suffix pattern accepts, and that the search returns the leftmost match.
\<close>

lemma bracketSuffixPattern_iff:
  "bracketSuffixPattern s \<longleftrightarrow> (\<exists>m. s = ''['' @ m @ '']'' \<and> list_all dotChar m)"
proof (cases s)
  case Nil
  then show ?thesis by simp
next
  case (Cons c cs)
  have "(cs \<noteq> [] \<and> last cs = CHR '']'' \<and> list_all dotChar (butlast cs))
        \<longleftrightarrow> (\<exists>m. cs = m @ '']'' \<and> list_all dotChar m)"
  proof
    assume a: "cs \<noteq> [] \<and> last cs = CHR '']'' \<and> list_all dotChar (butlast cs)"
    then have "cs = butlast cs @ '']''" by (metis append_butlast_last_id)
    with a show "\<exists>m. cs = m @ '']'' \<and> list_all dotChar m" by blast
  next
    assume "\<exists>m. cs = m @ '']'' \<and> list_all dotChar m"
    then show "cs \<noteq> [] \<and> last cs = CHR '']'' \<and> list_all dotChar (butlast cs)" by auto
  qed
  with Cons show ?thesis by auto
qed

lemma dateSuffixPattern_iff:
  "dateSuffixPattern s \<longleftrightarrow> (\<exists>ds. s = ''-'' @ ds \<and> length ds = 8 \<and> list_all isDigit ds)"
  by (cases s) auto

lemma firstMatch_None_iff:
  "firstMatch p s = None \<longleftrightarrow> (\<forall>j \<le> length s. \<not> p (drop j s))"
proof (induction s)
  case Nil
  then show ?case by simp
next
  case (Cons c cs)
  have "(\<forall>j \<le> length (c # cs). \<not> p (drop j (c # cs)))
        \<longleftrightarrow> \<not> p (c # cs) \<and> (\<forall>j \<le> length cs. \<not> p (drop j cs))"
  proof
    assume a: "\<forall>j \<le> length (c # cs). \<not> p (drop j (c # cs))"
    have "\<not> p (c # cs)" using a [rule_format, of 0] by simp
    moreover have "\<forall>j \<le> length cs. \<not> p (drop j cs)"
    proof (intro allI impI)
      fix j assume "j \<le> length cs"
      with a [rule_format, of "Suc j"] show "\<not> p (drop j cs)" by simp
    qed
    ultimately show "\<not> p (c # cs) \<and> (\<forall>j \<le> length cs. \<not> p (drop j cs))" by simp
  next
    assume a: "\<not> p (c # cs) \<and> (\<forall>j \<le> length cs. \<not> p (drop j cs))"
    show "\<forall>j \<le> length (c # cs). \<not> p (drop j (c # cs))"
    proof (intro allI impI)
      fix j assume "j \<le> length (c # cs)"
      with a show "\<not> p (drop j (c # cs))" by (cases j) auto
    qed
  qed
  with Cons.IH show ?case by simp
qed

lemma firstMatch_leftmost:
  "firstMatch p s = Some i \<Longrightarrow> j < i \<Longrightarrow> \<not> p (drop j s)"
proof (induction s arbitrary: i j)
  case Nil
  then show ?case by (simp split: if_splits)
next
  case (Cons c cs)
  from Cons.prems have np: "\<not> p (c # cs)" by (auto split: if_splits)
  with Cons.prems obtain i' where i': "firstMatch p cs = Some i'" "i = Suc i'"
    by (auto split: if_splits)
  show ?case
  proof (cases j)
    case 0
    with np show ?thesis by simp
  next
    case (Suc j')
    with Cons.prems(2) i'(2) have "j' < i'" by simp
    from Cons.IH [OF i'(1) this] Suc show ?thesis by simp
  qed
qed

lemma firstMatch_Some:
  "firstMatch p s = Some i \<Longrightarrow> i \<le> length s \<and> p (drop i s)"
proof (induction s arbitrary: i)
  case Nil
  then show ?case by (simp split: if_splits)
next
  case (Cons c cs)
  then show ?case by (auto split: if_splits)
qed

lemma firstMatch_less:
  "firstMatch p s = Some i \<Longrightarrow> \<not> p [] \<Longrightarrow> i < length s"
proof -
  assume a: "firstMatch p s = Some i" and n: "\<not> p []"
  from firstMatch_Some [OF a] have "i \<le> length s" and "p (drop i s)" by simp_all
  with n show ?thesis by (cases "i = length s") auto
qed

lemma stripSuffix_length: "length (stripSuffix p s) \<le> length s"
  by (simp add: stripSuffix_def split: option.splits)

lemma stripSuffix_shorter:
  "\<not> p [] \<Longrightarrow> firstMatch p s \<noteq> None \<Longrightarrow> length (stripSuffix p s) < length s"
  by (auto simp: stripSuffix_def dest: firstMatch_less split: option.splits)

lemma stripSuffix_no_match: "firstMatch p s = None \<Longrightarrow> stripSuffix p s = s"
  by (simp add: stripSuffix_def)

lemma not_isDigit_hyphen: "\<not> isDigit CHR ''-''"
  by (simp add: isDigit_def)

lemma not_isDigit_dot: "\<not> isDigit CHR ''.''"
  by (simp add: isDigit_def)

lemma takeWhile_digits_hyphen:
  "list_all isDigit d \<Longrightarrow> takeWhile isDigit (d @ CHR ''-'' # r) = d"
  by (simp add: list_all_iff takeWhile_append2 not_isDigit_hyphen)

lemma dropWhile_digits_hyphen:
  "list_all isDigit d \<Longrightarrow> dropWhile isDigit (d @ CHR ''-'' # r) = CHR ''-'' # r"
  by (simp add: list_all_iff dropWhile_append2 not_isDigit_hyphen)

lemma minorVersionTail_Some:
  assumes "minorVersionTail r = Some (d1, d2)"
  shows "r = CHR ''-'' # d1 @ CHR ''-'' # d2 \<and> d1 \<noteq> [] \<and> d2 \<noteq> []
         \<and> list_all isDigit d1 \<and> list_all isDigit d2"
proof (cases r)
  case Nil
  with assms show ?thesis by simp
next
  case (Cons c r1)
  with assms have c: "c = CHR ''-''" by (simp split: if_splits)
  from assms Cons c obtain h where
    dw: "dropWhile isDigit r1 = h # d2" and h: "h = CHR ''-''"
    and d1: "takeWhile isDigit r1 = d1" and ne: "d1 \<noteq> []" "d2 \<noteq> []"
    and dig2: "list_all isDigit d2"
    by (auto split: list.splits if_splits)
  have "r1 = takeWhile isDigit r1 @ dropWhile isDigit r1" by simp
  with dw d1 h have r1: "r1 = d1 @ CHR ''-'' # d2" by simp
  have "list_all isDigit (takeWhile isDigit r1)"
    by (auto simp: list_all_iff dest: set_takeWhileD)
  with d1 have "list_all isDigit d1" by simp
  with Cons c r1 ne dig2 show ?thesis by simp
qed

lemma minorVersionTail_complete:
  assumes "d1 \<noteq> []" "d2 \<noteq> []" "list_all isDigit d1" "list_all isDigit d2"
  shows "minorVersionTail (CHR ''-'' # d1 @ CHR ''-'' # d2) = Some (d1, d2)"
  using assms by (simp add: takeWhile_digits_hyphen dropWhile_digits_hyphen)

lemma dotStarBacktrack_Some:
  "dotStarBacktrack k s = Some (m1, m2) \<Longrightarrow>
   \<exists>j d1. j \<le> k \<and> minorVersionTail (drop j s) = Some (d1, m2) \<and> m1 = take j s @ CHR ''-'' # d1"
proof (induction k)
  case 0
  then show ?case by (auto split: option.splits)
next
  case (Suc k)
  show ?case
  proof (cases "minorVersionTail (drop (Suc k) s)")
    case None
    with Suc.prems have "dotStarBacktrack k s = Some (m1, m2)" by simp
    from Suc.IH [OF this] obtain j d1 where
      "j \<le> k" "minorVersionTail (drop j s) = Some (d1, m2)" "m1 = take j s @ CHR ''-'' # d1"
      by blast
    then show ?thesis by (intro exI [of _ j] exI [of _ d1]) simp
  next
    case (Some p)
    obtain d1 d2 where p: "p = (d1, d2)" by (cases p)
    with Some Suc.prems have "d2 = m2" and "m1 = take (Suc k) s @ CHR ''-'' # d1"
      by simp_all
    with Some p show ?thesis by (intro exI [of _ "Suc k"] exI [of _ d1]) simp
  qed
qed


lemma dotStarBacktrack_None:
  "dotStarBacktrack k s = None \<Longrightarrow> j \<le> k \<Longrightarrow> minorVersionTail (drop j s) = None"
proof (induction k)
  case 0
  then show ?case by (auto split: option.splits)
next
  case (Suc k)
  from Suc.prems(1) have here: "minorVersionTail (drop (Suc k) s) = None"
    and below: "dotStarBacktrack k s = None"
    by (auto split: option.splits)
  show ?case
  proof (cases "j = Suc k")
    case True
    with here show ?thesis by simp
  next
    case False
    with Suc.prems(2) have "j \<le> k" by simp
    from Suc.IH [OF below this] show ?thesis .
  qed
qed

lemma digits_suffix_unique:
  assumes "list_all isDigit d" "list_all isDigit e"
    and "a @ CHR ''-'' # d = b @ CHR ''-'' # e"
  shows "a = b \<and> d = e"
proof -
  have "list_all isDigit (rev d)" and "list_all isDigit (rev e)"
    using assms(1,2) by (simp_all add: list_all_iff)
  then have "takeWhile isDigit (rev d @ CHR ''-'' # rev a) = rev d"
    and "takeWhile isDigit (rev e @ CHR ''-'' # rev b) = rev e"
    by (simp_all only: takeWhile_digits_hyphen)
  then have "takeWhile isDigit (rev (a @ CHR ''-'' # d)) = rev d"
    and "takeWhile isDigit (rev (b @ CHR ''-'' # e)) = rev e"
    by simp_all
  then have "rev d = rev e" using assms(3) by simp
  then have "d = e" by simp
  with assms(3) show ?thesis by simp
qed

lemma minorVersionForm_unique:
  assumes "minorVersionForm s x d1 d2" "minorVersionForm s y e1 e2"
  shows "x = y \<and> d1 = e1 \<and> d2 = e2"
proof -
  from assms have eq: "(x @ CHR ''-'' # d1) @ CHR ''-'' # d2 = (y @ CHR ''-'' # e1) @ CHR ''-'' # e2"
    and dig: "list_all isDigit d1" "list_all isDigit d2" "list_all isDigit e1" "list_all isDigit e2"
    by (simp_all add: minorVersionForm_def)
  from digits_suffix_unique [OF dig(2) dig(4) eq]
  have 1: "x @ CHR ''-'' # d1 = y @ CHR ''-'' # e1" and 2: "d2 = e2" by simp_all
  from digits_suffix_unique [OF dig(1) dig(3) 1] 2 show ?thesis by simp
qed

lemma take_takeWhile_prefix:
  "j \<le> length (takeWhile P s) \<Longrightarrow> list_all P (take j s)"
proof (induction s arbitrary: j)
  case Nil
  then show ?case by simp
next
  case (Cons c cs)
  show ?case
  proof (cases j)
    case 0
    then show ?thesis by simp
  next
    case (Suc k)
    with Cons.prems have c: "P c" and k: "k \<le> length (takeWhile P cs)"
      by (auto split: if_splits)
    from Cons.IH [OF k] c Suc show ?thesis by simp
  qed
qed

lemma length_prefix_takeWhile:
  "list_all P x \<Longrightarrow> length x \<le> length (takeWhile P (x @ r))"
  by (simp add: list_all_iff takeWhile_append2)

lemma hyphenMinorVersionPattern_Some:
  assumes "hyphenMinorVersionPattern s = Some (m1, m2)"
  shows "\<exists>x d1. m1 = x @ ''-'' @ d1 \<and> minorVersionForm s x d1 m2"
proof -
  from assms obtain j d1 where j: "j \<le> length (takeWhile dotChar s)"
    and t: "minorVersionTail (drop j s) = Some (d1, m2)"
    and m1: "m1 = take j s @ CHR ''-'' # d1"
    unfolding hyphenMinorVersionPattern_def by (blast dest: dotStarBacktrack_Some)
  from minorVersionTail_Some [OF t] have d: "drop j s = CHR ''-'' # d1 @ CHR ''-'' # m2"
    and rest: "d1 \<noteq> []" "m2 \<noteq> []" "list_all isDigit d1" "list_all isDigit m2" by simp_all
  have "take j s @ drop j s = s" by simp
  with d have s: "take j s @ CHR ''-'' # d1 @ CHR ''-'' # m2 = s" by simp
  have "minorVersionForm s (take j s) d1 m2"
    unfolding minorVersionForm_def using s rest take_takeWhile_prefix [OF j] by simp
  with m1 show ?thesis by (intro exI [of _ "take j s"] exI [of _ d1]) simp
qed

lemma hyphenMinorVersionPattern_match:
  assumes "minorVersionForm s x d1 d2"
  shows "hyphenMinorVersionPattern s = Some (x @ ''-'' @ d1, d2)"
proof -
  from assms have s: "s = x @ ''-'' @ d1 @ ''-'' @ d2" and x: "list_all dotChar x"
    and rest: "d1 \<noteq> []" "d2 \<noteq> []" "list_all isDigit d1" "list_all isDigit d2"
    by (simp_all add: minorVersionForm_def)
  have le: "length x \<le> length (takeWhile dotChar s)"
    unfolding s by (rule length_prefix_takeWhile [OF x])
  have "drop (length x) s = CHR ''-'' # d1 @ CHR ''-'' # d2" unfolding s by simp
  with minorVersionTail_complete [OF rest]
  have tail: "minorVersionTail (drop (length x) s) = Some (d1, d2)" by simp
  have "hyphenMinorVersionPattern s \<noteq> None"
  proof
    assume "hyphenMinorVersionPattern s = None"
    then have n: "dotStarBacktrack (length (takeWhile dotChar s)) s = None"
      by (simp only: hyphenMinorVersionPattern_def)
    from dotStarBacktrack_None [OF n le] tail show False by simp
  qed
  then obtain m1 m2 where m: "hyphenMinorVersionPattern s = Some (m1, m2)" by auto
  from hyphenMinorVersionPattern_Some [OF m] obtain y e1 where
    m1: "m1 = y @ ''-'' @ e1" and f: "minorVersionForm s y e1 m2" by blast
  from minorVersionForm_unique [OF assms f] m1 m show ?thesis by simp
qed

lemma translateModelName_convert:
  "minorVersionForm (strippedModelName model) x d1 d2 \<Longrightarrow>
   translateModelName model = x @ ''-'' @ d1 @ ''.'' @ d2"
  by (simp add: translateModelName_def convertMinorVersion_def hyphenMinorVersionPattern_match)

lemma translateModelName_unchanged:
  assumes "\<And>x d1 d2. \<not> minorVersionForm (strippedModelName model) x d1 d2"
  shows "translateModelName model = strippedModelName model"
proof (cases "hyphenMinorVersionPattern (strippedModelName model)")
  case None
  then show ?thesis by (simp add: translateModelName_def convertMinorVersion_def)
next
  case (Some p)
  obtain m1 m2 where "p = (m1, m2)" by (cases p)
  with Some hyphenMinorVersionPattern_Some [of "strippedModelName model" m1 m2] assms
  show ?thesis by blast
qed

text \<open>
  Claim C6, as the code has it. The hyphen-to-dot rewrite applies exactly when the
  already-stripped string has the form \<open>x-d1-d2\<close>, with \<open>d1\<close> and \<open>d2\<close> non-empty
  runs of digits and no line terminator in \<open>x\<close>; no earlier \<^verbatim>\<open>-<digits>\<close> segment
  is needed in \<open>x\<close>. The result is then \<open>x-d1.d2\<close>: only the last hyphen is
  converted. A stripped string of any other form passes through unchanged.
\<close>

theorem translateModelName_minor_version:
  "(minorVersionForm (strippedModelName model) x d1 d2 \<longrightarrow>
      translateModelName model = x @ ''-'' @ d1 @ ''.'' @ d2)
   \<and> ((\<forall>y e1 e2. \<not> minorVersionForm (strippedModelName model) y e1 e2) \<longrightarrow>
      translateModelName model = strippedModelName model)"
  using translateModelName_convert translateModelName_unchanged by blast

theorem translateModelName_minor_version_witness:
  "strippedModelName ''claude-haiku-4-5-20251001'' = ''claude-haiku-4-5''
   \<and> minorVersionForm ''claude-haiku-4-5'' ''claude-haiku'' ''4'' ''5''
   \<and> translateModelName ''claude-haiku-4-5-20251001'' = ''claude-haiku-4.5''
   \<and> translateModelName ''gpt-4.1'' = ''gpt-4.1''"
proof -
  have s: "strippedModelName ''claude-haiku-4-5-20251001'' = ''claude-haiku-4-5''"
    by (simp add: strippedModelName_def stripSuffix_def isDigit_def)
  have f: "minorVersionForm ''claude-haiku-4-5'' ''claude-haiku'' ''4'' ''5''"
    by (simp add: minorVersionForm_def isDigit_def dotChar_def isLineTerminator_def)
  from translateModelName_minor_version [of "''claude-haiku-4-5-20251001''" "''claude-haiku''" "''4''" "''5''"] s f
  have 1: "translateModelName ''claude-haiku-4-5-20251001'' = ''claude-haiku-4.5''" by simp
  have g: "strippedModelName ''gpt-4.1'' = ''gpt-4.1''"
    by (simp add: strippedModelName_def stripSuffix_def isDigit_def)
  have "\<forall>y e1 e2. \<not> minorVersionForm ''gpt-4.1'' y e1 e2"
  proof (intro allI notI)
    fix y e1 e2 assume a: "minorVersionForm ''gpt-4.1'' y e1 e2"
    from hyphenMinorVersionPattern_match [OF a] show False
      by (simp add: hyphenMinorVersionPattern_def dotChar_def isLineTerminator_def isDigit_def
          numeral_eq_Suc)
  qed
  with translateModelName_minor_version [of "''gpt-4.1''"] g
  have 2: "translateModelName ''gpt-4.1'' = ''gpt-4.1''" by simp
  from s f 1 2 show ?thesis by blast
qed

text \<open>
  The claim as stated fails: \<^verbatim>\<open>claude-haiku-4-5\<close> ends in \<^verbatim>\<open>-4-5\<close> with no
  earlier \<^verbatim>\<open>-<digits>\<close> segment before that pair, and is rewritten all the same.
\<close>

theorem translateModelName_minor_version_counterexample:
  "\<not> spec_minorVersionRule ''claude-haiku-4-5''
   \<and> translateModelName ''claude-haiku-4-5'' = ''claude-haiku-4.5''"
  by (simp add: spec_minorVersionRule_def translateModelName_def strippedModelName_def
      stripSuffix_def convertMinorVersion_def hyphenMinorVersionPattern_def
      isDigit_def dotChar_def isLineTerminator_def numeral_eq_Suc)

lemma digit_run_suffix:
  assumes "list_all isDigit d" "list_all isDigit e" "\<not> isDigit c1" "\<not> isDigit c2"
    and "a @ c1 # d = b @ c2 # e"
  shows "a = b \<and> c1 = c2 \<and> d = e"
proof -
  have rd: "\<And>x. x \<in> set (rev d) \<Longrightarrow> isDigit x" and re: "\<And>x. x \<in> set (rev e) \<Longrightarrow> isDigit x"
    using assms(1,2) by (simp_all add: list_all_iff)
  have "takeWhile isDigit (rev d @ c1 # rev a) = rev d"
    and "takeWhile isDigit (rev e @ c2 # rev b) = rev e"
    using assms(3,4) takeWhile_append2 [of "rev d" isDigit "c1 # rev a", OF rd]
      takeWhile_append2 [of "rev e" isDigit "c2 # rev b", OF re]
    by simp_all
  then have "takeWhile isDigit (rev (a @ c1 # d)) = rev d"
    and "takeWhile isDigit (rev (b @ c2 # e)) = rev e"
    by simp_all
  then have "rev d = rev e" using assms(5) by simp
  then have "d = e" by simp
  with assms(5) show ?thesis by simp
qed

lemma convertMinorVersion_length: "length (convertMinorVersion s) = length s"
proof (cases "hyphenMinorVersionPattern s")
  case None
  then show ?thesis by (simp add: convertMinorVersion_def)
next
  case (Some p)
  obtain m1 m2 where p: "p = (m1, m2)" by (cases p)
  with Some have m: "hyphenMinorVersionPattern s = Some (m1, m2)" by simp
  from hyphenMinorVersionPattern_Some [OF m] obtain x d1 where
    "m1 = x @ ''-'' @ d1" and "minorVersionForm s x d1 m2" by blast
  then have "length s = length m1 + 1 + length m2"
    by (simp add: minorVersionForm_def)
  with m show ?thesis by (simp add: convertMinorVersion_def)
qed

lemma convertMinorVersion_idem:
  "convertMinorVersion (convertMinorVersion s) = convertMinorVersion s"
proof (cases "hyphenMinorVersionPattern s")
  case None
  then show ?thesis by (simp add: convertMinorVersion_def)
next
  case (Some p)
  obtain m1 m2 where p: "p = (m1, m2)" by (cases p)
  with Some have m: "hyphenMinorVersionPattern s = Some (m1, m2)" by simp
  from hyphenMinorVersionPattern_Some [OF m] obtain x d1 where
    "minorVersionForm s x d1 m2" by blast
  then have m2: "list_all isDigit m2" by (simp add: minorVersionForm_def)
  from m have u: "convertMinorVersion s = m1 @ CHR ''.'' # m2"
    by (simp add: convertMinorVersion_def)
  have "hyphenMinorVersionPattern (m1 @ CHR ''.'' # m2) = None"
  proof (rule ccontr)
    assume "hyphenMinorVersionPattern (m1 @ CHR ''.'' # m2) \<noteq> None"
    then obtain n1 n2 where
      n: "hyphenMinorVersionPattern (m1 @ CHR ''.'' # m2) = Some (n1, n2)" by auto
    from hyphenMinorVersionPattern_Some [OF n] obtain y e1 where
      f: "minorVersionForm (m1 @ CHR ''.'' # m2) y e1 n2" by blast
    then have eq: "m1 @ CHR ''.'' # m2 = (y @ CHR ''-'' # e1) @ CHR ''-'' # n2"
      and n2: "list_all isDigit n2"
      by (simp_all add: minorVersionForm_def)
    from digit_run_suffix [OF m2 n2 not_isDigit_dot not_isDigit_hyphen eq]
    show False by simp
  qed
  with u show ?thesis by (simp add: convertMinorVersion_def)
qed

lemma strippedModelName_length: "length (strippedModelName s) \<le> length s"
  unfolding strippedModelName_def
  using stripSuffix_length [of dateSuffixPattern "stripSuffix bracketSuffixPattern s"]
    stripSuffix_length [of bracketSuffixPattern s]
  by simp

lemma strippedModelName_shorter:
  assumes "firstMatch bracketSuffixPattern s \<noteq> None \<or> firstMatch dateSuffixPattern s \<noteq> None"
  shows "length (strippedModelName s) < length s"
proof (cases "firstMatch bracketSuffixPattern s")
  case (Some i)
  then have "length (stripSuffix bracketSuffixPattern s) < length s"
    using stripSuffix_shorter [of bracketSuffixPattern s] by simp
  with stripSuffix_length [of dateSuffixPattern "stripSuffix bracketSuffixPattern s"]
  show ?thesis by (simp add: strippedModelName_def)
next
  case None
  with assms have d: "firstMatch dateSuffixPattern s \<noteq> None" by simp
  from None have "stripSuffix bracketSuffixPattern s = s" by (rule stripSuffix_no_match)
  with stripSuffix_shorter [of dateSuffixPattern s] d
  show ?thesis by (simp add: strippedModelName_def)
qed

lemma strippedModelName_no_match:
  "firstMatch bracketSuffixPattern s = None \<Longrightarrow> firstMatch dateSuffixPattern s = None \<Longrightarrow>
   strippedModelName s = s"
  by (simp add: strippedModelName_def stripSuffix_no_match)

text \<open>
  Claim C2, as the code has it. Each rule is applied once, in a fixed order, so a suffix that
  the later rules uncover is left in place. Normalizing a normalized identifier returns it
  unchanged exactly when that identifier no longer ends in a bracketed annotation or in an
  8-digit date suffix; the hyphen-to-dot rule never applies a second time.
\<close>

theorem translateModelName_idempotent_iff:
  "translateModelName (translateModelName s) = translateModelName s \<longleftrightarrow>
     firstMatch bracketSuffixPattern (translateModelName s) = None
     \<and> firstMatch dateSuffixPattern (translateModelName s) = None"
proof
  assume idem: "translateModelName (translateModelName s) = translateModelName s"
  show "firstMatch bracketSuffixPattern (translateModelName s) = None
        \<and> firstMatch dateSuffixPattern (translateModelName s) = None"
  proof (rule ccontr)
    assume "\<not> (firstMatch bracketSuffixPattern (translateModelName s) = None
        \<and> firstMatch dateSuffixPattern (translateModelName s) = None)"
    then have "length (strippedModelName (translateModelName s)) < length (translateModelName s)"
      by (intro strippedModelName_shorter) simp
    then have "length (translateModelName (translateModelName s)) < length (translateModelName s)"
      by (simp add: translateModelName_def [of "translateModelName s"] convertMinorVersion_length)
    with idem show False by simp
  qed
next
  assume "firstMatch bracketSuffixPattern (translateModelName s) = None
        \<and> firstMatch dateSuffixPattern (translateModelName s) = None"
  then have "strippedModelName (translateModelName s) = translateModelName s"
    by (simp add: strippedModelName_no_match)
  then have "translateModelName (translateModelName s) = convertMinorVersion (translateModelName s)"
    by (simp add: translateModelName_def [of "translateModelName s"])
  also have "\<dots> = translateModelName s"
    by (simp add: translateModelName_def [of s] convertMinorVersion_idem)
  finally show "translateModelName (translateModelName s) = translateModelName s" .
qed

theorem translateModelName_idempotent_iff_witness:
  "translateModelName ''claude-sonnet-4-5-20250929[1m]'' = ''claude-sonnet-4.5''
   \<and> translateModelName (translateModelName ''claude-sonnet-4-5-20250929[1m]'')
       = translateModelName ''claude-sonnet-4-5-20250929[1m]''"
proof -
  have v: "translateModelName ''claude-sonnet-4-5-20250929[1m]'' = ''claude-sonnet-4.5''"
    by (simp add: translateModelName_def strippedModelName_def
      stripSuffix_def convertMinorVersion_def hyphenMinorVersionPattern_def
      isDigit_def dotChar_def isLineTerminator_def numeral_eq_Suc)
  have "firstMatch bracketSuffixPattern ''claude-sonnet-4.5'' = None
     \<and> firstMatch dateSuffixPattern ''claude-sonnet-4.5'' = None"
    by simp
  with translateModelName_idempotent_iff [of "''claude-sonnet-4-5-20250929[1m]''"] v
  show ?thesis by simp
qed

text \<open>
  The claim as stated fails: removing the date suffix of
  \<^verbatim>\<open>claude-opus-4[1m]-20250514\<close> uncovers a bracketed annotation, which only a second
  normalization removes.
\<close>

theorem translateModelName_idempotent_counterexample:
  "translateModelName ''claude-opus-4[1m]-20250514'' = ''claude-opus-4[1m]''
   \<and> translateModelName (translateModelName ''claude-opus-4[1m]-20250514'') = ''claude-opus-4''"
  by (simp add: translateModelName_def strippedModelName_def
      stripSuffix_def convertMinorVersion_def hyphenMinorVersionPattern_def
      isDigit_def dotChar_def isLineTerminator_def numeral_eq_Suc)

section \<open>Properties of the upstream call\<close>

lemma promiseAll_map:
  "(\<And>x. x \<in> set xs \<Longrightarrow> \<exists>y. f x = Inr y) \<Longrightarrow>
   \<exists>ys. promiseAll (map f xs) = Inr ys \<and> length ys = length xs
        \<and> (\<forall>i < length xs. f (xs ! i) = Inr (ys ! i))"
proof (induction xs)
  case Nil
  then show ?case by simp
next
  case (Cons x xs)
  from Cons.prems obtain y where y: "f x = Inr y" by auto
  from Cons.IH Cons.prems obtain ys where
    ys: "promiseAll (map f xs) = Inr ys" "length ys = length xs"
        "\<forall>i < length xs. f (xs ! i) = Inr (ys ! i)"
    by auto
  have "\<forall>i < length (x # xs). f ((x # xs) ! i) = Inr ((y # ys) ! i)"
    using y ys(3) by (auto simp: nth_Cons split: nat.splits)
  with y ys(1,2) show ?case by (intro exI [of _ "y # ys"]) simp
qed

lemma resolvePart_returns: "\<exists>q. resolvePart fetch toBase64 p = Inr q"
  by (cases p) (auto split: sum.splits)

lemma resolvePart_failure:
  "\<not> startsWith url ''data:'' \<Longrightarrow> fetchImageAsBase64 fetch toBase64 url = Inl e \<Longrightarrow>
   resolvePart fetch toBase64 (ImagePart url d) = Inr (ImagePart url d)"
  by simp

lemma resolveMessage_returns:
  "\<exists>m. resolveMessage fetch toBase64 msg = Inr m \<and> role m = role msg
     \<and> (\<forall>ps. content msg = CParts ps \<longrightarrow>
          (\<exists>ps'. content m = CParts ps' \<and> length ps' = length ps
             \<and> (\<forall>j < length ps. resolvePart fetch toBase64 (ps ! j) = Inr (ps' ! j))))"
proof (cases "content msg")
  case (CParts ps)
  from promiseAll_map [of ps "resolvePart fetch toBase64"] obtain ps' where
    "promiseAll (map (resolvePart fetch toBase64) ps) = Inr ps'" "length ps' = length ps"
    "\<forall>j < length ps. resolvePart fetch toBase64 (ps ! j) = Inr (ps' ! j)"
    using resolvePart_returns by blast
  with CParts show ?thesis by (simp add: resolveMessage_def)
next
  case (CString s)
  then show ?thesis by (simp add: resolveMessage_def)
next
  case CNull
  then show ?thesis by (simp add: resolveMessage_def)
qed

lemma resolveExternalImages_returns:
  "\<exists>resolved. resolveExternalImages fetch toBase64 payload = Inr resolved
     \<and> length (messages resolved) = length (messages payload)
     \<and> (\<forall>i < length (messages payload).
          messages resolved ! i = messages payload ! i
          \<or> resolveMessage fetch toBase64 (messages payload ! i) = Inr (messages resolved ! i))"
proof (cases "list_ex hasExternalPart (messages payload)")
  case False
  then show ?thesis by (simp add: resolveExternalImages_def)
next
  case True
  from promiseAll_map [of "messages payload" "resolveMessage fetch toBase64"] obtain ms where
    "promiseAll (map (resolveMessage fetch toBase64) (messages payload)) = Inr ms"
    "length ms = length (messages payload)"
    "\<forall>i < length (messages payload).
       resolveMessage fetch toBase64 (messages payload ! i) = Inr (ms ! i)"
    using resolveMessage_returns by blast
  with True show ?thesis by (simp add: resolveExternalImages_def)
qed

lemma resolveExternalImages_roles:
  assumes "resolveExternalImages fetch toBase64 payload = Inr resolved"
  shows "map role (messages resolved) = map role (messages payload)"
proof -
  from resolveExternalImages_returns [of fetch toBase64 payload] assms
  have len: "length (messages resolved) = length (messages payload)"
    and each: "\<forall>i < length (messages payload).
          messages resolved ! i = messages payload ! i
          \<or> resolveMessage fetch toBase64 (messages payload ! i) = Inr (messages resolved ! i)"
    by auto
  have "\<forall>i < length (messages payload). role (messages resolved ! i) = role (messages payload ! i)"
  proof (intro allI impI)
    fix i assume "i < length (messages payload)"
    with each have "messages resolved ! i = messages payload ! i
          \<or> resolveMessage fetch toBase64 (messages payload ! i) = Inr (messages resolved ! i)"
      by simp
    then show "role (messages resolved ! i) = role (messages payload ! i)"
      using resolveMessage_returns [of fetch toBase64 "messages payload ! i"] by auto
  qed
  with len show ?thesis by (simp add: list_eq_iff_nth_eq)
qed

text \<open>
  Claim C9. The external-image resolution step always returns a payload (no error leaves
  it), with as many messages as it was given and, in every message with a content-part
  list, as many parts; and every external (non-data-URI) image part whose fetch fails is,
  at its position, the original part unchanged.
\<close>

theorem resolveExternalImages_fetch_failure:
  "\<exists>resolved. resolveExternalImages fetch toBase64 payload = Inr resolved
     \<and> length (messages resolved) = length (messages payload)
     \<and> (\<forall>i < length (messages payload). \<forall>ps.
          content (messages payload ! i) = CParts ps \<longrightarrow>
          (\<exists>ps'. content (messages resolved ! i) = CParts ps' \<and> length ps' = length ps
             \<and> (\<forall>j < length ps. \<forall>url d e.
                  ps ! j = ImagePart url d \<and> \<not> startsWith url ''data:''
                  \<and> fetchImageAsBase64 fetch toBase64 url = Inl e
                  \<longrightarrow> ps' ! j = ps ! j)))"
proof -
  from resolveExternalImages_returns [of fetch toBase64 payload] obtain resolved where
    r: "resolveExternalImages fetch toBase64 payload = Inr resolved"
    and len: "length (messages resolved) = length (messages payload)"
    and each: "\<forall>i < length (messages payload).
          messages resolved ! i = messages payload ! i
          \<or> resolveMessage fetch toBase64 (messages payload ! i) = Inr (messages resolved ! i)"
    by blast
  have "\<forall>i < length (messages payload). \<forall>ps.
          content (messages payload ! i) = CParts ps \<longrightarrow>
          (\<exists>ps'. content (messages resolved ! i) = CParts ps' \<and> length ps' = length ps
             \<and> (\<forall>j < length ps. \<forall>url d e.
                  ps ! j = ImagePart url d \<and> \<not> startsWith url ''data:''
                  \<and> fetchImageAsBase64 fetch toBase64 url = Inl e
                  \<longrightarrow> ps' ! j = ps ! j))"
  proof (intro allI impI)
    fix i ps
    assume i: "i < length (messages payload)" and c: "content (messages payload ! i) = CParts ps"
    from each i have "messages resolved ! i = messages payload ! i
          \<or> resolveMessage fetch toBase64 (messages payload ! i) = Inr (messages resolved ! i)"
      by simp
    then show "\<exists>ps'. content (messages resolved ! i) = CParts ps' \<and> length ps' = length ps
             \<and> (\<forall>j < length ps. \<forall>url d e.
                  ps ! j = ImagePart url d \<and> \<not> startsWith url ''data:''
                  \<and> fetchImageAsBase64 fetch toBase64 url = Inl e
                  \<longrightarrow> ps' ! j = ps ! j)"
    proof
      assume "messages resolved ! i = messages payload ! i"
      with c show ?thesis by (intro exI [of _ ps]) simp
    next
      assume m: "resolveMessage fetch toBase64 (messages payload ! i) = Inr (messages resolved ! i)"
      from resolveMessage_returns [of fetch toBase64 "messages payload ! i"] m c
      obtain ps' where ps': "content (messages resolved ! i) = CParts ps'"
        "length ps' = length ps"
        "\<forall>j < length ps. resolvePart fetch toBase64 (ps ! j) = Inr (ps' ! j)"
        by auto
      have "\<forall>j < length ps. \<forall>url d e.
                  ps ! j = ImagePart url d \<and> \<not> startsWith url ''data:''
                  \<and> fetchImageAsBase64 fetch toBase64 url = Inl e
                  \<longrightarrow> ps' ! j = ps ! j"
      proof (intro allI impI)
        fix j url d e
        assume j: "j < length ps"
          and f: "ps ! j = ImagePart url d \<and> \<not> startsWith url ''data:''
                  \<and> fetchImageAsBase64 fetch toBase64 url = Inl e"
        from ps'(3) j have "resolvePart fetch toBase64 (ps ! j) = Inr (ps' ! j)" by simp
        with f show "ps' ! j = ps ! j" by simp
      qed
      with ps'(1,2) show ?thesis by blast
    qed
  qed
  with r len show ?thesis by blast
qed

theorem resolveExternalImages_fetch_failure_witness:
  "\<not> startsWith ''https://example.com/cat.png'' ''data:''
   \<and> fetchImageAsBase64 Map.empty id ''https://example.com/cat.png'' = Inl NetworkError
   \<and> map_sum id (\<lambda>p. map content (messages p))
        (resolveExternalImages Map.empty id
           (examplePayload
              [exampleMessage User (CParts [ImagePart ''https://example.com/cat.png'' None])]))
      = Inr [CParts [ImagePart ''https://example.com/cat.png'' None]]"
proof -
  let ?img = "ImagePart ''https://example.com/cat.png'' None"
  let ?p = "examplePayload [exampleMessage User (CParts [?img])]"
  have ext: "\<not> startsWith ''https://example.com/cat.png'' ''data:''"
    by (simp add: startsWith_def)
  have fail: "fetchImageAsBase64 Map.empty id ''https://example.com/cat.png'' = Inl NetworkError"
    by (simp add: fetchImageAsBase64_def)
  have ms: "messages ?p = [exampleMessage User (CParts [?img])]"
    by (simp add: examplePayload_def)
  from resolveExternalImages_fetch_failure [of Map.empty id ?p] obtain resolved where
    r: "resolveExternalImages Map.empty id ?p = Inr resolved"
    and len: "length (messages resolved) = length (messages ?p)"
    and each: "\<forall>i < length (messages ?p). \<forall>ps.
          content (messages ?p ! i) = CParts ps \<longrightarrow>
          (\<exists>ps'. content (messages resolved ! i) = CParts ps' \<and> length ps' = length ps
             \<and> (\<forall>j < length ps. \<forall>url d e.
                  ps ! j = ImagePart url d \<and> \<not> startsWith url ''data:''
                  \<and> fetchImageAsBase64 Map.empty id url = Inl e
                  \<longrightarrow> ps' ! j = ps ! j))"
    by blast
  from len ms obtain m where m: "messages resolved = [m]"
    by (cases "messages resolved") auto
  from each ms m have "\<exists>ps'. content m = CParts ps' \<and> length ps' = length [?img]
             \<and> (\<forall>j < length [?img]. \<forall>url d e.
                  [?img] ! j = ImagePart url d \<and> \<not> startsWith url ''data:''
                  \<and> fetchImageAsBase64 Map.empty id url = Inl e
                  \<longrightarrow> ps' ! j = [?img] ! j)"
    by (simp add: exampleMessage_def)
  then obtain ps' where c: "content m = CParts ps'" and l: "length ps' = Suc 0"
    and keep: "\<forall>url d e.
                  ?img = ImagePart url d \<and> \<not> startsWith url ''data:''
                  \<and> fetchImageAsBase64 Map.empty id url = Inl e
                  \<longrightarrow> ps' ! 0 = ?img"
    by auto
  from keep ext fail have "ps' ! 0 = ?img" by blast
  with l have "ps' = [?img]" by (cases ps') auto
  with c m r ext fail show ?thesis by simp
qed

text \<open>
  Claim C10. With a (non-empty) token in the state, \<^verbatim>\<open>createChatCompletions\<close> builds its request,
  and the request's \<^verbatim>\<open>X-Initiator\<close> header is \<^verbatim>\<open>agent\<close> if some message of the
  payload has role \<^verbatim>\<open>assistant\<close> or \<^verbatim>\<open>tool\<close>, and \<^verbatim>\<open>user\<close> otherwise,
  whatever \<^verbatim>\<open>copilotHeaders\<close> supplies under that name.
\<close>

theorem createChatCompletions_initiator:
  assumes "copilotToken state \<noteq> None" and "copilotToken state \<noteq> Some []"
  shows "\<exists>request.
           chatCompletionsRequest copilotHeaders copilotBaseUrl fetch toBase64 state payload
             = Inr request
           \<and> req_headers request ''X-Initiator''
             = Some (if (\<exists>msg \<in> set (messages payload). role msg = Assistant \<or> role msg = Tool)
                     then ''agent'' else ''user'')"
proof -
  from resolveExternalImages_returns [of fetch toBase64 payload] obtain resolved where
    r: "resolveExternalImages fetch toBase64 payload = Inr resolved" by blast
  have "list_ex (\<lambda>msg. isAgentRole (role msg)) (messages resolved)
          = list_ex isAgentRole (map role (messages resolved))"
    by (simp add: list_ex_iff)
  also have "\<dots> = list_ex isAgentRole (map role (messages payload))"
    by (simp only: resolveExternalImages_roles [OF r])
  also have "\<dots> = (\<exists>msg \<in> set (messages payload). role msg = Assistant \<or> role msg = Tool)"
    by (simp add: list_ex_iff isAgentRole_def)
  finally have agent: "list_ex (\<lambda>msg. isAgentRole (role msg)) (messages resolved)
          = (\<exists>msg \<in> set (messages payload). role msg = Assistant \<or> role msg = Tool)" .
  from assms r show ?thesis
    by (simp add: chatCompletionsRequest_def Let_def agent)
qed


theorem createChatCompletions_initiator_witness:
  "map_sum id (\<lambda>request. req_headers request ''X-Initiator'')
     (chatCompletionsRequest exampleHeaders exampleBaseUrl Map.empty id
        \<lparr> copilotToken = Some ''token'' \<rparr>
        (examplePayload [exampleMessage User (CString ''hi''),
                         exampleMessage Assistant (CString ''hello''),
                         exampleMessage User (CString ''bye'')]))
     = Inr (Some ''agent'')
   \<and> map_sum id (\<lambda>request. req_headers request ''X-Initiator'')
     (chatCompletionsRequest exampleHeaders exampleBaseUrl Map.empty id
        \<lparr> copilotToken = Some ''token'' \<rparr>
        (examplePayload [exampleMessage System (CString ''be brief''),
                         exampleMessage User (CString ''hi'')]))
     = Inr (Some ''user'')"
proof -
  let ?st = "\<lparr> copilotToken = Some ''token'' \<rparr>"
  let ?a = "examplePayload [exampleMessage User (CString ''hi''),
                         exampleMessage Assistant (CString ''hello''),
                         exampleMessage User (CString ''bye'')]"
  let ?u = "examplePayload [exampleMessage System (CString ''be brief''),
                         exampleMessage User (CString ''hi'')]"
  have tok: "copilotToken ?st \<noteq> None" and tok': "copilotToken ?st \<noteq> Some []"
    by simp_all
  from createChatCompletions_initiator [OF tok tok', of exampleHeaders exampleBaseUrl Map.empty id ?a]
  have 1: "map_sum id (\<lambda>request. req_headers request ''X-Initiator'')
     (chatCompletionsRequest exampleHeaders exampleBaseUrl Map.empty id ?st ?a)
     = Inr (Some ''agent'')"
    by (auto simp: examplePayload_def exampleMessage_def)
  from createChatCompletions_initiator [OF tok tok', of exampleHeaders exampleBaseUrl Map.empty id ?u]
  have 2: "map_sum id (\<lambda>request. req_headers request ''X-Initiator'')
     (chatCompletionsRequest exampleHeaders exampleBaseUrl Map.empty id ?st ?u)
     = Inr (Some ''user'')"
    by (auto simp: examplePayload_def exampleMessage_def)
  from 1 2 show ?thesis by blast
qed

section \<open>Properties of the streaming handler\<close>

lemma closeOpenBlock_events:
  "closeOpenBlock st = (evs, st') \<Longrightarrow>
   MessageStart \<notin> set evs \<and> messageStartSent st' = messageStartSent st"
  by (auto simp: closeOpenBlock_def split: if_splits)

lemma contentStep_events:
  "contentStep c st = (evs, st') \<Longrightarrow>
   MessageStart \<notin> set evs \<and> messageStartSent st' = messageStartSent st"
  by (auto simp: contentStep_def closeOpenBlock_def Let_def split: option.splits if_splits)

lemma argumentsStep_events:
  "argumentsStep tc st = (evs, st') \<Longrightarrow>
   MessageStart \<notin> set evs \<and> messageStartSent st' = messageStartSent st"
  by (auto simp: argumentsStep_def split: option.splits)

lemma toolCallStep_events:
  "toolCallStep tc st = Inr (evs, st') \<Longrightarrow>
   MessageStart \<notin> set evs \<and> messageStartSent st' = messageStartSent st"
  by (auto simp: toolCallStep_def closeOpenBlock_def Let_def
      split: option.splits if_splits prod.splits dest!: argumentsStep_events)

lemma toolCallsStep_events:
  "toolCallsStep tcs st = Inr (evs, st') \<Longrightarrow>
   MessageStart \<notin> set evs \<and> messageStartSent st' = messageStartSent st"
proof (induction tcs arbitrary: st evs)
  case Nil
  then show ?case by simp
next
  case (Cons tc tcs)
  from Cons.prems obtain e1 s1 e2 where
    1: "toolCallStep tc st = Inr (e1, s1)" and 2: "toolCallsStep tcs s1 = Inr (e2, st')"
    and evs: "evs = e1 @ e2"
    by (auto split: sum.splits prod.splits)
  from toolCallStep_events [OF 1] Cons.IH [OF 2] evs show ?case by simp
qed

lemma finishStep_events:
  "finishStep f u st = (evs, st') \<Longrightarrow>
   MessageStart \<notin> set evs \<and> messageStartSent st' = messageStartSent st"
  by (auto simp: finishStep_def closeOpenBlock_def Let_def split: option.splits if_splits)

text \<open>
  What one call of the translator emits: \<^verbatim>\<open>message_start\<close> first and only there when
  it has not been sent, no \<^verbatim>\<open>message_start\<close> when it has; afterwards it has been sent.
\<close>

lemma translateChunk_events:
  assumes "translateChunkToAnthropicEvents chunk st = Inr (evs, st')"
  shows "messageStartSent st'
     \<and> (\<exists>rest. evs = (if messageStartSent st then [] else [MessageStart]) @ rest
               \<and> MessageStart \<notin> set rest)"
proof (cases "chunk_choices chunk")
  case Nil
  with assms show ?thesis
    by (auto simp: translateChunkToAnthropicEvents_def messageStartStep_def split: if_splits)
next
  case (Cons c cs)
  obtain e1 s1 where 1: "messageStartStep st = (e1, s1)" by (cases "messageStartStep st")
  obtain e2 s2 where 2: "contentStep (delta_content (choice_delta c)) s1 = (e2, s2)"
    by (cases "contentStep (delta_content (choice_delta c)) s1")
  from assms Cons 1 2 obtain e3 s3 where
    3: "toolCallsStep (case delta_tool_calls (choice_delta c) of None \<Rightarrow> [] | Some tcs \<Rightarrow> tcs) s2
        = Inr (e3, s3)"
    by (auto simp: translateChunkToAnthropicEvents_def split: sum.splits)
  obtain e4 s4 where 4: "finishStep (choice_finish_reason c) (chunk_usage chunk) s3 = (e4, s4)"
    by (cases "finishStep (choice_finish_reason c) (chunk_usage chunk) s3")
  from assms Cons 1 2 3 4 have evs: "evs = e1 @ e2 @ e3 @ e4" and st': "st' = s4"
    by (simp_all add: translateChunkToAnthropicEvents_def)
  from 1 have e1: "e1 = (if messageStartSent st then [] else [MessageStart])"
    and s1: "messageStartSent s1"
    by (auto simp: messageStartStep_def split: if_splits)
  from contentStep_events [OF 2] toolCallsStep_events [OF 3] finishStep_events [OF 4] s1
  have "MessageStart \<notin> set (e2 @ e3 @ e4)" and "messageStartSent s4" by simp_all
  with evs st' e1 show ?thesis by simp
qed

lemma streamLoop_sent:
  "messageStartSent st \<Longrightarrow> MessageStart \<notin> set (streamLoop parse es st)"
proof (induction es arbitrary: st)
  case Nil
  then show ?case by simp
next
  case (Cons e es)
  show ?case
  proof (cases "data e = Some ''[DONE]''")
    case True
    then show ?thesis by simp
  next
    case notDone: False
    show ?thesis
    proof (cases "data e")
      case None
      with Cons show ?thesis by simp
    next
      case (Some d)
      show ?thesis
      proof (cases "d = []")
        case True
        with Some Cons show ?thesis by simp
      next
        case False
        show ?thesis
        proof (cases "parse d")
          case None
          with Some False notDone show ?thesis by simp
        next
          case (Some chunk)
          note chunk = this
          show ?thesis
          proof (cases "translateChunkToAnthropicEvents chunk st")
            case (Inl err)
            with chunk \<open>data e = Some d\<close> False notDone show ?thesis by simp
          next
            case (Inr r)
            obtain evs st' where r: "r = (evs, st')" by (cases r)
            from translateChunk_events [OF Inr [unfolded r]] Cons.prems
            have "messageStartSent st'" and "MessageStart \<notin> set evs" by auto
            with Cons.IH [of st'] Inr r chunk \<open>data e = Some d\<close> False notDone
            show ?thesis by simp
          qed
        qed
      qed
    qed
  qed
qed

lemma streamLoop_no_data:
  "firstData es = None \<Longrightarrow> streamLoop parse es st = []"
proof (induction es)
  case Nil
  then show ?case by simp
next
  case (Cons e es)
  then show ?case by (auto split: option.splits if_splits)
qed

lemma streamLoop_first_data:
  "firstData es = Some d \<Longrightarrow>
   \<exists>rest. streamLoop parse es st =
     (case parse d of
        None \<Rightarrow> [ErrorEvent]
      | Some chunk \<Rightarrow>
          (case translateChunkToAnthropicEvents chunk st of
             Inl err \<Rightarrow> [ErrorEvent]
           | Inr (events, st') \<Rightarrow> events @ streamLoop parse rest st'))"
proof (induction es)
  case Nil
  then show ?case by simp
next
  case (Cons e es)
  show ?case
  proof (cases "firstData es = Some d \<and> (data e = None \<or> data e = Some [])")
    case True
    with Cons.IH obtain rest where
      "streamLoop parse es st =
        (case parse d of
           None \<Rightarrow> [ErrorEvent]
         | Some chunk \<Rightarrow>
             (case translateChunkToAnthropicEvents chunk st of
                Inl err \<Rightarrow> [ErrorEvent]
              | Inr (events, st') \<Rightarrow> events @ streamLoop parse rest st'))"
      by blast
    with True show ?thesis by (intro exI [of _ rest]) auto
  next
    case False
    with Cons.prems have d: "data e = Some d" and ne: "d \<noteq> []" and nd: "d \<noteq> ''[DONE]''"
      by (auto split: option.splits if_splits)
    then show ?thesis
      by (intro exI [of _ es]) (simp split: option.splits sum.splits)
  qed
qed

lemma handleCompletionStream_cases:
  "(firstData response = None \<longrightarrow> handleCompletionStream parse response = [Ping])
   \<and> (\<forall>d. firstData response = Some d
          \<and> (parse d = None
             \<or> (\<exists>chunk err. parse d = Some chunk
                  \<and> translateChunkToAnthropicEvents chunk initialStreamState = Inl err))
        \<longrightarrow> handleCompletionStream parse response = [Ping, ErrorEvent])
   \<and> (\<forall>d chunk r. firstData response = Some d \<and> parse d = Some chunk
          \<and> translateChunkToAnthropicEvents chunk initialStreamState = Inr r
        \<longrightarrow> (\<exists>rest. handleCompletionStream parse response = Ping # MessageStart # rest
                    \<and> MessageStart \<notin> set rest))"
proof (intro conjI allI impI)
  assume "firstData response = None"
  then show "handleCompletionStream parse response = [Ping]"
    by (simp add: handleCompletionStream_def streamLoop_no_data)
next
  fix d
  assume a: "firstData response = Some d
          \<and> (parse d = None
             \<or> (\<exists>chunk err. parse d = Some chunk
                  \<and> translateChunkToAnthropicEvents chunk initialStreamState = Inl err))"
  with streamLoop_first_data [of response d parse initialStreamState]
  show "handleCompletionStream parse response = [Ping, ErrorEvent]"
    by (auto simp: handleCompletionStream_def)
next
  fix d chunk r
  assume a: "firstData response = Some d \<and> parse d = Some chunk
          \<and> translateChunkToAnthropicEvents chunk initialStreamState = Inr r"
  obtain evs st' where r: "r = (evs, st')" by (cases r)
  with a have t: "translateChunkToAnthropicEvents chunk initialStreamState = Inr (evs, st')"
    by simp
  from translateChunk_events [OF t] obtain rest1 where
    sent: "messageStartSent st'" and evs: "evs = MessageStart # rest1"
    and r1: "MessageStart \<notin> set rest1"
    by (auto simp: initialStreamState_def)
  from streamLoop_first_data [of response d parse initialStreamState] a t obtain es where
    "streamLoop parse response initialStreamState = evs @ streamLoop parse es st'"
    by auto
  with evs r1 streamLoop_sent [OF sent, of parse es]
  show "\<exists>rest. handleCompletionStream parse response = Ping # MessageStart # rest
                    \<and> MessageStart \<notin> set rest"
    by (simp add: handleCompletionStream_def)
qed

lemma handleCompletionStream_shape:
  "handleCompletionStream parse response = [Ping]
   \<or> handleCompletionStream parse response = [Ping, ErrorEvent]
   \<or> (\<exists>rest. handleCompletionStream parse response = Ping # MessageStart # rest
             \<and> MessageStart \<notin> set rest)"
proof (cases "firstData response")
  case None
  with handleCompletionStream_cases [of response parse] show ?thesis by blast
next
  case (Some d)
  show ?thesis
  proof (cases "parse d")
    case None
    with Some handleCompletionStream_cases [of response parse] show ?thesis by blast
  next
    case chunk: (Some chunk)
    show ?thesis
    proof (cases "translateChunkToAnthropicEvents chunk initialStreamState")
      case (Inl err)
      with Some chunk handleCompletionStream_cases [of response parse] show ?thesis by blast
    next
      case (Inr r)
      with Some chunk handleCompletionStream_cases [of response parse] show ?thesis by blast
    qed
  qed
qed

lemma count_list_absent: "x \<notin> set xs \<Longrightarrow> count_list xs x = 0"
  by (induction xs) auto

lemma exampleStream_first:
  "firstData exampleStream = Some ''Hel'' \<and> exampleParse ''Hel'' = Some (textChunk ''Hel'')"
  by (simp add: exampleStream_def exampleParse_def)

lemma exampleStream_translates:
  "translateChunkToAnthropicEvents (textChunk ''Hel'') initialStreamState
   = Inr ([MessageStart, ContentBlockStart 0 TextStart, ContentBlockDelta 0 (TextDelta ''Hel'')],
          \<lparr> messageStartSent = True, contentBlockIndex = 0, contentBlockOpen = True,
            toolCalls = [] \<rparr>)"
  by (simp add: translateChunkToAnthropicEvents_def textChunk_def initialStreamState_def
      messageStartStep_def contentStep_def closeOpenBlock_def isToolBlockOpen_def
      finishStep_def Let_def)

text \<open>
  Claim C8, as the code has it. For every stream the first emitted event is
  \<^verbatim>\<open>ping\<close>. \<^verbatim>\<open>message_start\<close> is emitted at most once; it is emitted exactly once
  when the first data-carrying record of the stream (before the terminator) parses and is
  translated without error, and not at all otherwise. Every \<^verbatim>\<open>content_block_start\<close>,
  \<^verbatim>\<open>content_block_delta\<close> and \<^verbatim>\<open>content_block_stop\<close> event comes after a
  \<^verbatim>\<open>message_start\<close>.
\<close>

theorem handleCompletionStream_message_start:
  "(\<exists>rest. handleCompletionStream parse response = Ping # rest)
   \<and> count_list (handleCompletionStream parse response) MessageStart \<le> 1
   \<and> (count_list (handleCompletionStream parse response) MessageStart = 1 \<longleftrightarrow>
        (\<exists>d chunk r. firstData response = Some d \<and> parse d = Some chunk
           \<and> translateChunkToAnthropicEvents chunk initialStreamState = Inr r))
   \<and> (\<forall>i < length (handleCompletionStream parse response).
        isContentBlockEvent (handleCompletionStream parse response ! i) \<longrightarrow>
        (\<exists>j < i. handleCompletionStream parse response ! j = MessageStart))"
proof (intro conjI)
  let ?out = "handleCompletionStream parse response"
  show "\<exists>rest. ?out = Ping # rest" by (simp add: handleCompletionStream_def)
  show "count_list ?out MessageStart \<le> 1"
    using handleCompletionStream_shape [of parse response]
    by (auto simp: count_list_absent)
  show "count_list ?out MessageStart = 1 \<longleftrightarrow>
        (\<exists>d chunk r. firstData response = Some d \<and> parse d = Some chunk
           \<and> translateChunkToAnthropicEvents chunk initialStreamState = Inr r)"
  proof
    assume one: "count_list ?out MessageStart = 1"
    show "\<exists>d chunk r. firstData response = Some d \<and> parse d = Some chunk
           \<and> translateChunkToAnthropicEvents chunk initialStreamState = Inr r"
    proof (rule ccontr)
      assume no: "\<not> (\<exists>d chunk r. firstData response = Some d \<and> parse d = Some chunk
           \<and> translateChunkToAnthropicEvents chunk initialStreamState = Inr r)"
      have "?out = [Ping] \<or> ?out = [Ping, ErrorEvent]"
      proof (cases "firstData response")
        case None
        with handleCompletionStream_cases [of response parse] show ?thesis by blast
      next
        case (Some d)
        with no have "parse d = None
             \<or> (\<exists>chunk err. parse d = Some chunk
                  \<and> translateChunkToAnthropicEvents chunk initialStreamState = Inl err)"
          by (cases "parse d") (auto intro: sum.exhaust)
        with Some handleCompletionStream_cases [of response parse] show ?thesis by blast
      qed
      with one show False by auto
    qed
  next
    assume "\<exists>d chunk r. firstData response = Some d \<and> parse d = Some chunk
           \<and> translateChunkToAnthropicEvents chunk initialStreamState = Inr r"
    with handleCompletionStream_cases [of response parse] obtain rest where
      "?out = Ping # MessageStart # rest" "MessageStart \<notin> set rest" by blast
    then show "count_list ?out MessageStart = 1" by (simp add: count_list_absent)
  qed
  show "\<forall>i < length ?out. isContentBlockEvent (?out ! i) \<longrightarrow> (\<exists>j < i. ?out ! j = MessageStart)"
  proof (intro allI impI)
    fix i assume i: "i < length ?out" and cb: "isContentBlockEvent (?out ! i)"
    from handleCompletionStream_shape [of parse response]
    show "\<exists>j < i. ?out ! j = MessageStart"
    proof (elim disjE exE conjE)
      assume o: "?out = [Ping]"
      with i cb show ?thesis by simp
    next
      assume o: "?out = [Ping, ErrorEvent]"
      with i have "i = 0 \<or> i = 1" by auto
      with o cb show ?thesis by auto
    next
      fix rest assume o: "?out = Ping # MessageStart # rest"
      have "i \<noteq> 0"
      proof
        assume "i = 0"
        with o cb show False by simp
      qed
      moreover have "i \<noteq> 1"
      proof
        assume "i = 1"
        with o cb show False by simp
      qed
      ultimately have "1 < i" by simp
      with o show ?thesis by (intro exI [of _ 1]) simp
    qed
  qed
qed

theorem handleCompletionStream_message_start_witness:
  "firstData exampleStream = Some ''Hel''
   \<and> exampleParse ''Hel'' = Some (textChunk ''Hel'')
   \<and> count_list (handleCompletionStream exampleParse exampleStream) MessageStart = 1
   \<and> handleCompletionStream exampleParse exampleStream ! 2 = ContentBlockStart 0 TextStart
   \<and> handleCompletionStream exampleParse exampleStream ! 1 = MessageStart"
proof -
  have c: "count_list (handleCompletionStream exampleParse exampleStream) MessageStart = 1"
    using handleCompletionStream_message_start [of exampleParse exampleStream]
      exampleStream_first exampleStream_translates
    by blast
  have out: "handleCompletionStream exampleParse exampleStream =
     [Ping, MessageStart, ContentBlockStart 0 TextStart,
      ContentBlockDelta 0 (TextDelta ''Hel''), ContentBlockDelta 0 (TextDelta ''lo''),
      ContentBlockStop 0, MessageDelta (Some End_turn) None, MessageStop]"
    by (simp add: handleCompletionStream_def exampleStream_def exampleParse_def
      translateChunkToAnthropicEvents_def textChunk_def finishChunk_def initialStreamState_def
      messageStartStep_def contentStep_def closeOpenBlock_def isToolBlockOpen_def
      finishStep_def mapStopReason_def Let_def)
  from c out exampleStream_first show ?thesis by simp
qed

text \<open>
  The claim as stated fails: on a stream that ends before its first fragment the handler
  writes the ping and nothing else, so \<^verbatim>\<open>message_start\<close> is not emitted at all.
\<close>

theorem handleCompletionStream_message_start_counterexample:
  "handleCompletionStream exampleParse [\<lparr> data = Some ''[DONE]'' \<rparr>] = [Ping]
   \<and> count_list (handleCompletionStream exampleParse [\<lparr> data = Some ''[DONE]'' \<rparr>]) MessageStart = 0"
  by (simp add: handleCompletionStream_def)

text \<open>The scenario of the specification's section 8.\<close>

lemma handleCompletionStream_scenario:
  "handleCompletionStream exampleParse exampleStream =
     [Ping, MessageStart, ContentBlockStart 0 TextStart,
      ContentBlockDelta 0 (TextDelta ''Hel''), ContentBlockDelta 0 (TextDelta ''lo''),
      ContentBlockStop 0, MessageDelta (Some End_turn) None, MessageStop]"
  by (simp add: handleCompletionStream_def exampleStream_def exampleParse_def
      translateChunkToAnthropicEvents_def textChunk_def finishChunk_def initialStreamState_def
      messageStartStep_def contentStep_def closeOpenBlock_def isToolBlockOpen_def
      finishStep_def mapStopReason_def Let_def)

end
